theory Spec2Isabelle
  imports Main
begin

section \<open>Go library functions the translator calls\<close>

text \<open>
  Go strings are byte sequences; a \<^typ>\<open>string\<close> is a list of bytes.  Go's \<open>int\<close> is
  taken to be 64 bits wide (the size on every 64-bit platform): \<open>int64\<close> writes out
  the two's-complement wrap-around of an arithmetic result.
\<close>

definition int64 :: "int \<Rightarrow> int" where
  "int64 x = (x + 2 ^ 63) mod 2 ^ 64 - 2 ^ 63"

text \<open>
  \<open>unicode.IsSpace\<close> on the UTF-8 text: the six ASCII white-space bytes, and the
  encodings of U+0085, U+00A0, U+1680, U+2000..U+200A, U+2028, U+2029, U+202F, U+205F
  and U+3000.  \<open>spaceWidth s\<close> is the number of bytes of the white-space rune that \<open>s\<close>
  starts with, and 0 when it starts with none.
\<close>

definition asciiSpace :: "char \<Rightarrow> bool" where
  "asciiSpace c = (c \<in> set [CHR 0x09, CHR 0x0A, CHR 0x0B, CHR 0x0C, CHR 0x0D, CHR 0x20])"

definition spaceWidth :: "string \<Rightarrow> nat" where
  "spaceWidth s =
     (case s of
        [] \<Rightarrow> 0
      | c # cs \<Rightarrow>
          if asciiSpace c then 1
          else if c = CHR 0xC2 \<and> take 1 cs \<in> set [[CHR 0x85], [CHR 0xA0]] then 2
          else if c = CHR 0xE1 \<and> take 2 cs = [CHR 0x9A, CHR 0x80] then 3
          else if c = CHR 0xE2 \<and> take 2 cs \<in> set (map (\<lambda>b. [CHR 0x80, b])
                    [CHR 0x80, CHR 0x81, CHR 0x82, CHR 0x83, CHR 0x84, CHR 0x85, CHR 0x86,
                     CHR 0x87, CHR 0x88, CHR 0x89, CHR 0x8A, CHR 0xA8, CHR 0xA9, CHR 0xAF])
               then 3
          else if c = CHR 0xE2 \<and> take 2 cs = [CHR 0x81, CHR 0x9F] then 3
          else if c = CHR 0xE3 \<and> take 2 cs = [CHR 0x80, CHR 0x80] then 3
          else 0)"

text \<open>\<open>markSpace 0 s\<close> tells, byte by byte, which bytes of \<open>s\<close> belong to a white-space rune.\<close>

fun markSpace :: "nat \<Rightarrow> string \<Rightarrow> bool list" where
  "markSpace k [] = []"
| "markSpace k (c # cs) =
     (if 0 < k then True # markSpace (k - 1) cs
      else if 0 < spaceWidth (c # cs) then True # markSpace (spaceWidth (c # cs) - 1) cs
      else False # markSpace 0 cs)"

text \<open>\<open>strings.TrimSpace\<close>: all leading and trailing white space removed.\<close>

definition TrimSpace :: "string \<Rightarrow> string" where
  "TrimSpace s = map fst (rev (dropWhile snd (rev (dropWhile snd (zip s (markSpace 0 s))))))"

text \<open>\<open>strings.Fields\<close>: the maximal runs of non-space bytes, in order.\<close>

fun splitFields :: "string \<Rightarrow> (char \<times> bool) list \<Rightarrow> string list" where
  "splitFields cur [] = (if cur = [] then [] else [cur])"
| "splitFields cur ((c, sp) # rest) =
     (if sp then (if cur = [] then [] else [cur]) @ splitFields [] rest
      else splitFields (cur @ [c]) rest)"

definition Fields :: "string \<Rightarrow> string list" where
  "Fields s = splitFields [] (zip s (markSpace 0 s))"

text \<open>\<open>strings.SplitN(s, "//", 2)[0]\<close>: the text before the first \<open>//\<close>, all of \<open>s\<close> if there is none.\<close>

fun beforeSlashes :: "string \<Rightarrow> string" where
  "beforeSlashes (a # b # cs) =
     (if a = CHR ''/'' \<and> b = CHR ''/'' then [] else a # beforeSlashes (b # cs))"
| "beforeSlashes cs = cs"

definition HasPrefix :: "string \<Rightarrow> string \<Rightarrow> bool" where
  "HasPrefix s p = (take (length p) s = p)"

definition HasSuffix :: "string \<Rightarrow> string \<Rightarrow> bool" where
  "HasSuffix s p = (length p \<le> length s \<and> drop (length s - length p) s = p)"

text \<open>\<open>strings.ToUpper\<close>; the translator applies it to \<open>eq\<close>, \<open>lt\<close> and \<open>gt\<close> only, so the
  ASCII letters are all that is modelled.\<close>

definition upperChar :: "char \<Rightarrow> char" where
  "upperChar c = (if 97 \<le> (of_char c :: nat) \<and> (of_char c :: nat) \<le> 122
                  then char_of ((of_char c :: nat) - 32) else c)"

definition ToUpper :: "string \<Rightarrow> string" where
  "ToUpper s = map upperChar s"

text \<open>
  \<open>strconv.Atoi\<close>: an optional single sign, then at least one decimal digit and nothing
  else; a value outside the 64-bit range is an error as well.
\<close>

definition digitVal :: "char \<Rightarrow> nat option" where
  "digitVal c = (if 48 \<le> (of_char c :: nat) \<and> (of_char c :: nat) \<le> 57
                 then Some ((of_char c :: nat) - 48) else None)"

fun parseDigits :: "nat \<Rightarrow> string \<Rightarrow> nat option" where
  "parseDigits acc [] = Some acc"
| "parseDigits acc (c # cs) =
     (case digitVal c of None \<Rightarrow> None | Some d \<Rightarrow> parseDigits (acc * 10 + d) cs)"

definition Atoi :: "string \<Rightarrow> int option" where
  "Atoi s =
     (case s of
        [] \<Rightarrow> None
      | c # cs \<Rightarrow>
          (let ds = (if c = CHR ''-'' \<or> c = CHR ''+'' then cs else s) in
           if ds = [] then None
           else case parseDigits 0 ds of
                  None \<Rightarrow> None
                | Some n \<Rightarrow>
                    (let v = (if c = CHR ''-'' then - int n else int n) in
                     if - (2 ^ 63) \<le> v \<and> v < 2 ^ 63 then Some v else None)))"

text \<open>The verb \<open>%d\<close> of \<open>fmt.Sprintf\<close>: decimal digits, with a minus sign for a negative number.\<close>

definition digitChar :: "nat \<Rightarrow> char" where
  "digitChar d = char_of (48 + d)"

fun natDigits :: "nat \<Rightarrow> string" where
  "natDigits n = (if n < 10 then [digitChar n] else natDigits (n div 10) @ [digitChar (n mod 10)])"

definition fmtInt :: "int \<Rightarrow> string" where
  "fmtInt i = (if i < 0 then CHR ''-'' # natDigits (nat (- i)) else natDigits (nat i))"

section \<open>The translator's package-level variables\<close>

text \<open>
  \<open>fileName\<close>, \<open>compLabelCounter\<close>, \<open>callCounter\<close> and \<open>currentFunctionName\<close> are
  package-level variables; the model passes them along as one record.  Go initialises
  them to the empty string and to 0.
\<close>

record globals =
  fileName :: string
  compLabelCounter :: int
  callCounter :: int
  currentFunctionName :: string

definition initGlobals :: globals where
  "initGlobals = \<lparr>fileName = [], compLabelCounter = 0, callCounter = 0, currentFunctionName = []\<rparr>"

datatype error = Errorf string | OpenError | ScanError

section \<open>Code generation, one command category at a time\<close>

definition translateReturnCommand :: string where
  "translateReturnCommand =
     ''@LCL\<newline>D=M\<newline>@5\<newline>A=D-A\<newline>D=M\<newline>@R13\<newline>M=D\<newline>'' @
     ''@SP\<newline>A=M-1\<newline>D=M\<newline>@ARG\<newline>A=M\<newline>M=D\<newline>'' @
     ''D=A+1\<newline>@SP\<newline>M=D\<newline>'' @
     ''@LCL\<newline>AM=M-1\<newline>D=M\<newline>@THAT\<newline>M=D\<newline>'' @
     ''@LCL\<newline>AM=M-1\<newline>D=M\<newline>@THIS\<newline>M=D\<newline>'' @
     ''@LCL\<newline>AM=M-1\<newline>D=M\<newline>@ARG\<newline>M=D\<newline>'' @
     ''@LCL\<newline>A=M-1\<newline>D=M\<newline>@LCL\<newline>M=D\<newline>'' @
     ''@R13\<newline>A=M\<newline>0;JMP\<newline>''"

definition translateGotoCommand :: "string \<Rightarrow> string" where
  "translateGotoCommand label = ''@'' @ label @ ''\<newline>0;JMP\<newline>''"

definition translateIfGotoCommand :: "string \<Rightarrow> string" where
  "translateIfGotoCommand label =
     ''@SP\<newline>AM=M-1\<newline>D=M\<newline>@'' @ label @ ''\<newline>D;JNE\<newline>''"

definition translateLabelCommand :: "globals \<Rightarrow> string \<Rightarrow> string" where
  "translateLabelCommand g label =
     ''('' @ currentFunctionName g @ ''$'' @ label @ '')\<newline>''"

definition translateCallCommand :: "globals \<Rightarrow> string \<Rightarrow> int \<Rightarrow> (error + string) \<times> globals" where
  "translateCallCommand g functionName numArgs =
     (let returnLabel = functionName @ ''$ret.'' @ fmtInt (callCounter g);
          g' = g\<lparr>callCounter := int64 (callCounter g + 1)\<rparr>;
          asm0 = ''@'' @ returnLabel @
                 ''\<newline>D=A\<newline>@SP\<newline>A=M\<newline>M=D\<newline>@SP\<newline>M=M+1\<newline>'';
          asm1 = foldl (\<lambda>asm segment. asm @ ''@'' @ segment @
                   ''\<newline>D=M\<newline>@SP\<newline>A=M\<newline>M=D\<newline>@SP\<newline>M=M+1\<newline>'')
                   asm0 [''LCL'', ''ARG'', ''THIS'', ''THAT''];
          asm2 = asm1 @ ''@SP\<newline>D=M\<newline>@'' @ fmtInt numArgs @
                 ''\<newline>D=D-A\<newline>@5\<newline>D=D-A\<newline>@ARG\<newline>M=D\<newline>'';
          asm3 = asm2 @ ''@SP\<newline>D=M\<newline>@LCL\<newline>M=D\<newline>'';
          asm4 = asm3 @ ''@'' @ functionName @ ''\<newline>0;JMP\<newline>'';
          asm5 = asm4 @ ''('' @ returnLabel @ '')\<newline>''
      in (Inr asm5, g'))"

text \<open>The loop \<open>for i := 0; i < numLocals; i++\<close> of \<open>translateFunctionCommand\<close>.\<close>

function initLocals :: "int \<Rightarrow> int \<Rightarrow> string \<Rightarrow> string" where
  "initLocals i numLocals asm =
     (if i < numLocals
      then initLocals (i + 1) numLocals
             (asm @ ''@SP\<newline>A=M\<newline>M=0\<newline>'' @ ''@SP\<newline>M=M+1\<newline>'')
      else asm)"
  by pat_completeness auto
termination
  by (relation "measure (\<lambda>(i, numLocals, asm). nat (numLocals - i))") auto

definition translateFunctionCommand :: "string \<Rightarrow> int \<Rightarrow> error + string" where
  "translateFunctionCommand functionName numLocals =
     Inr (initLocals 0 numLocals (''('' @ functionName @ '')\<newline>''))"

definition pushSegmentTemplate :: "string \<Rightarrow> string \<Rightarrow> string" where
  "pushSegmentTemplate segment index =
     ''@'' @ segment @ ''\<newline>D=M\<newline>@'' @ index @
     ''\<newline>A=D+A\<newline>D=M\<newline>@SP\<newline>A=M\<newline>M=D\<newline>@SP\<newline>M=M+1\<newline>''"

definition translatePushCommand :: "string \<Rightarrow> string \<Rightarrow> string \<Rightarrow> error + string" where
  "translatePushCommand segment index fname =
     (if segment = ''constant'' then
        Inr (''@'' @ index @ ''\<newline>D=A\<newline>@SP\<newline>A=M\<newline>M=D\<newline>@SP\<newline>M=M+1\<newline>'')
      else if segment = ''local'' then Inr (pushSegmentTemplate ''LCL'' index)
      else if segment = ''argument'' then Inr (pushSegmentTemplate ''ARG'' index)
      else if segment = ''this'' then Inr (pushSegmentTemplate ''THIS'' index)
      else if segment = ''that'' then Inr (pushSegmentTemplate ''THAT'' index)
      else if segment = ''static'' then
        Inr (''@'' @ fname @ ''.'' @ index @
             ''\<newline>D=M\<newline>@SP\<newline>A=M\<newline>M=D\<newline>@SP\<newline>M=M+1\<newline>'')
      else if segment = ''temp'' then
        (case Atoi index of
           None \<Rightarrow> Inl (Errorf (''invalid index for push temp command: '' @ index))
         | Some offset \<Rightarrow>
             Inr (''@R'' @ fmtInt (int64 (5 + offset)) @
                  ''\<newline>D=M\<newline>@SP\<newline>A=M\<newline>M=D\<newline>@SP\<newline>M=M+1\<newline>''))
      else if segment = ''pointer'' then
        (if index = ''0'' then
           Inr (''@THIS\<newline>D=M\<newline>'' @ ''@SP\<newline>A=M\<newline>M=D\<newline>@SP\<newline>M=M+1\<newline>'')
         else if index = ''1'' then
           Inr (''@THAT\<newline>D=M\<newline>'' @ ''@SP\<newline>A=M\<newline>M=D\<newline>@SP\<newline>M=M+1\<newline>'')
         else Inl (Errorf (''invalid index for push pointer command: '' @ index)))
      else Inl (Errorf (''unsupported push command: push '' @ segment @ '' '' @ index)))"

definition translateArithmeticCommand :: "string \<Rightarrow> string" where
  "translateArithmeticCommand cmd =
     (if cmd = ''add'' then ''@SP\<newline>AM=M-1\<newline>D=M\<newline>A=A-1\<newline>M=D+M\<newline>''
      else if cmd = ''sub'' then ''@SP\<newline>AM=M-1\<newline>D=M\<newline>A=A-1\<newline>M=M-D\<newline>''
      else if cmd = ''neg'' then ''@SP\<newline>A=M-1\<newline>M=-M\<newline>''
      else if cmd = ''and'' then ''@SP\<newline>AM=M-1\<newline>D=M\<newline>A=A-1\<newline>M=D&M\<newline>''
      else if cmd = ''or'' then ''@SP\<newline>AM=M-1\<newline>D=M\<newline>A=A-1\<newline>M=D|M\<newline>''
      else if cmd = ''not'' then ''@SP\<newline>A=M-1\<newline>M=!M\<newline>''
      else [])"

text \<open>The map literal of \<open>translateComparisonCommand\<close>; a missing key reads as the empty string.\<close>

definition jumpInstruction :: "string \<Rightarrow> string" where
  "jumpInstruction cmd =
     (case map_of [(''eq'', ''JEQ''), (''lt'', ''JLT''), (''gt'', ''JGT'')] cmd of
        None \<Rightarrow> [] | Some j \<Rightarrow> j)"

definition trueLabel :: "string \<Rightarrow> int \<Rightarrow> string" where
  "trueLabel cmd labelCounter = ToUpper cmd @ ''_TRUE_'' @ fmtInt labelCounter"

definition endLabel :: "string \<Rightarrow> int \<Rightarrow> string" where
  "endLabel cmd labelCounter = ToUpper cmd @ ''_END_'' @ fmtInt labelCounter"

definition translateComparisonCommand :: "string \<Rightarrow> int \<Rightarrow> string" where
  "translateComparisonCommand cmd labelCounter =
     ''@SP\<newline>AM=M-1\<newline>D=M\<newline>A=A-1\<newline>D=M-D\<newline>@'' @ trueLabel cmd labelCounter @
     ''\<newline>D;'' @ jumpInstruction cmd @ ''\<newline>'' @
     ''@SP\<newline>A=M-1\<newline>M=0\<newline>@'' @ endLabel cmd labelCounter @
     ''\<newline>0;JMP\<newline>('' @ trueLabel cmd labelCounter @
     '')\<newline>@SP\<newline>A=M-1\<newline>M=-1\<newline>('' @ endLabel cmd labelCounter @ '')\<newline>''"

definition translatePopCommand :: "string \<Rightarrow> string \<Rightarrow> string \<Rightarrow> error + string" where
  "translatePopCommand segment index fname =
     (let indirect = (\<lambda>baseAddr.
            Inr (''@'' @ baseAddr @ ''\<newline>D=M\<newline>@'' @ index @
                 ''\<newline>D=D+A\<newline>@R13\<newline>M=D\<newline>@SP\<newline>AM=M-1\<newline>D=M\<newline>@R13\<newline>A=M\<newline>M=D\<newline>''));
          direct = (\<lambda>baseAddr.
            Inr (''@SP\<newline>AM=M-1\<newline>D=M\<newline>@'' @ baseAddr @ ''\<newline>M=D\<newline>''))
      in
      if segment = ''local'' then indirect ''LCL''
      else if segment = ''argument'' then indirect ''ARG''
      else if segment = ''this'' then indirect ''THIS''
      else if segment = ''that'' then indirect ''THAT''
      else if segment = ''temp'' then
        (case Atoi index of
           None \<Rightarrow> Inl (Errorf (''invalid index for pop temp command: '' @ index))
         | Some tempIndex \<Rightarrow>
             Inr (''@'' @ fmtInt 5 @ ''\<newline>D=A\<newline>@'' @ fmtInt tempIndex @
                  ''\<newline>D=D+A\<newline>@R13\<newline>M=D\<newline>@SP\<newline>AM=M-1\<newline>D=M\<newline>@R13\<newline>A=M\<newline>M=D\<newline>''))
      else if segment = ''pointer'' then
        (if index = ''0'' then direct ''THIS''
         else if index = ''1'' then direct ''THAT''
         else Inl (Errorf (''invalid index for pop pointer command: '' @ index)))
      else if segment = ''static'' then
        (case Atoi index of
           None \<Rightarrow> Inl (Errorf (''invalid index for pop static command: '' @ index))
         | Some staticIndex \<Rightarrow>
             Inr (''@SP\<newline>AM=M-1\<newline>D=M\<newline>@'' @ fname @ ''.'' @ fmtInt staticIndex @
                  ''\<newline>M=D\<newline>''))
      else Inl (Errorf (''unsupported segment for pop command: '' @ segment)))"

section \<open>Dispatch on the first word of a command\<close>

definition vmCommandToAsm :: "globals \<Rightarrow> string \<Rightarrow> (error + string) \<times> globals" where
  "vmCommandToAsm g cmd0 =
     (let cmd = TrimSpace (beforeSlashes cmd0);
          parts = Fields cmd
      in
      if length parts = 0 then (Inl (Errorf ''empty command line''), g)
      else if parts ! 0 \<in> set [''add'', ''sub'', ''neg'', ''and'', ''or'', ''not''] then
        (Inr (translateArithmeticCommand (parts ! 0)), g)
      else if parts ! 0 \<in> set [''eq'', ''lt'', ''gt''] then
        (Inr (translateComparisonCommand (parts ! 0) (compLabelCounter g)),
         g\<lparr>compLabelCounter := int64 (compLabelCounter g + 1)\<rparr>)
      else if parts ! 0 \<in> set [''push'', ''pop''] then
        (if length parts \<noteq> 3 then
           (Inl (Errorf (''invalid '' @ parts ! 0 @ '' command: '' @ cmd)), g)
         else if parts ! 0 = ''push'' then
           (translatePushCommand (parts ! 1) (parts ! 2) (fileName g), g)
         else (translatePopCommand (parts ! 1) (parts ! 2) (fileName g), g))
      else if parts ! 0 \<in> set [''function'', ''call''] then
        (if length parts \<noteq> 3 then
           (Inl (Errorf (''invalid '' @ parts ! 0 @ '' command: '' @ cmd)), g)
         else case Atoi (parts ! 2) of
             None \<Rightarrow>
               (Inl (Errorf (''invalid number for '' @ parts ! 0 @ '' command: '' @ parts ! 2)), g)
           | Some numLocalsOrArgs \<Rightarrow>
               if parts ! 0 = ''function'' then
                 (translateFunctionCommand (parts ! 1) numLocalsOrArgs, g)
               else translateCallCommand g (parts ! 1) numLocalsOrArgs)
      else if parts ! 0 = ''if-goto'' then
        (if length parts \<noteq> 2 then (Inl (Errorf (''invalid if-goto command: '' @ cmd)), g)
         else (Inr (translateIfGotoCommand (parts ! 1)), g))
      else if parts ! 0 = ''goto'' then
        (if length parts \<noteq> 2 then (Inl (Errorf (''invalid goto command: '' @ cmd)), g)
         else (Inr (translateGotoCommand (parts ! 1)), g))
      else if parts ! 0 = ''label'' then
        (if length parts \<noteq> 2 then (Inl (Errorf (''invalid label command: '' @ cmd)), g)
         else (Inr (translateLabelCommand g (parts ! 1)), g))
      else if parts ! 0 = ''return'' then
        (if length parts \<noteq> 1 then (Inl (Errorf (''invalid return command: '' @ cmd)), g)
         else (Inr translateReturnCommand, g))
      else (Inl (Errorf (''unsupported command: '' @ cmd)), g))"

section \<open>Writing one source file, and the whole directory\<close>

text \<open>
  \<open>bufio.Writer\<close> with its default buffer of 4096 bytes, on top of the output file.  The
  state is the pair of the file's content and the bytes still held in the buffer.  The
  output file is taken to accept every write.  \<open>WriteString\<close> follows the library's loop:
  while the string does not fit into the free part of the buffer, an empty buffer passes
  the string straight on to the file, and a buffer in use is filled up and flushed.
\<close>

definition defaultBufSize :: nat where
  "defaultBufSize = 4096"

function WriteString :: "string \<times> string \<Rightarrow> string \<Rightarrow> string \<times> string" where
  "WriteString (file, buf) s =
     (if defaultBufSize - length buf < length s then
        (if length buf = 0 then (file @ s, buf)
         else WriteString (file @ buf @ take (defaultBufSize - length buf) s, [])
                (drop (defaultBufSize - length buf) s))
      else (file, buf @ s))"
  by pat_completeness auto
termination
  by (relation "measure (\<lambda>((file, buf), s). length buf + length s)")
     (auto simp: length_greater_0_conv [symmetric] simp del: length_greater_0_conv)

definition Flush :: "string \<times> string \<Rightarrow> string \<times> string" where
  "Flush w = (fst w @ snd w, [])"

text \<open>
  A source file as \<open>bufio.Scanner\<close> presents it: the lines it yields, and whether the
  scan ends with an error instead of the end of the file.  \<open>os.Open\<close> may fail: then
  there is no source at all.
\<close>

record vmSource =
  srcLines :: "string list"
  srcErr :: bool

text \<open>The loop \<open>for scanner.Scan()\<close> of \<open>translateVMFileToASM\<close>.\<close>

fun translateLines ::
  "globals \<Rightarrow> string \<times> string \<Rightarrow> string list \<Rightarrow> error option \<times> (string \<times> string) \<times> globals" where
  "translateLines g w [] = (None, w, g)"
| "translateLines g w (l # ls) =
     (if TrimSpace l = [] \<or> HasPrefix (TrimSpace l) ''//'' then translateLines g w ls
      else case vmCommandToAsm g (TrimSpace l) of
             (Inl err, g') \<Rightarrow> (Some err, w, g')
           | (Inr asm, g') \<Rightarrow> translateLines g' (WriteString w asm) ls)"

text \<open>
  \<open>translateVMFileToASM\<close> makes a writer of its own on the output file and flushes it
  on the last line only: every return before that one leaves the function with the
  buffer's content unwritten.  The result is the error (if any), the content of the
  output file and the package-level variables.
\<close>

definition translateVMFileToASM ::
  "globals \<Rightarrow> string \<Rightarrow> vmSource option \<Rightarrow> error option \<times> string \<times> globals" where
  "translateVMFileToASM g asmFile vmFile =
     (case vmFile of
        None \<Rightarrow> (Some OpenError, asmFile, g)
      | Some src \<Rightarrow>
          (case translateLines g (asmFile, []) (srcLines src) of
             (Some err, w, g') \<Rightarrow> (Some err, fst w, g')
           | (None, w, g') \<Rightarrow>
               if srcErr src then (Some ScanError, fst w, g')
               else (None, fst (Flush w), g')))"

text \<open>
  A directory entry as \<open>os.ReadDir\<close> lists it, with what opening the file of that name
  gives.  The names of one directory are distinct.
\<close>

record dirEntry =
  Name :: string
  IsDir :: bool
  source :: "vmSource option"

fun checkForSysVM :: "dirEntry list \<Rightarrow> bool" where
  "checkForSysVM [] = False"
| "checkForSysVM (entry # files) =
     (if \<not> IsDir entry \<and> Name entry = ''Sys.vm'' then True else checkForSysVM files)"

text \<open>\<open>os.Open\<close> of the path made of the directory and a file name.\<close>

definition openFile :: "dirEntry list \<Rightarrow> string \<Rightarrow> vmSource option" where
  "openFile files name =
     (case find (\<lambda>entry. Name entry = name) files of None \<Rightarrow> None | Some entry \<Rightarrow> source entry)"

text \<open>
  The loop \<open>for _, entry := range files\<close> of \<open>main\<close>.  Its \<open>fileName := entry.Name()\<close>
  declares a local variable: the package-level \<open>fileName\<close> is not assigned, here or
  anywhere else.  An error of one file is printed and the loop goes on.
\<close>

fun translateEntries :: "globals \<Rightarrow> string \<Rightarrow> dirEntry list \<Rightarrow> string \<times> globals" where
  "translateEntries g asmFile [] = (asmFile, g)"
| "translateEntries g asmFile (entry # files) =
     (if \<not> IsDir entry \<and> HasSuffix (Name entry) ''.vm'' \<and> Name entry \<noteq> ''Sys.vm'' then
        (case translateVMFileToASM g asmFile (source entry) of
           (err, asmFile', g') \<Rightarrow> translateEntries g' asmFile' files)
      else translateEntries g asmFile files)"

definition bootstrap :: string where
  "bootstrap = ''@256\<newline>D=A\<newline>@SP\<newline>M=D\<newline>''"

text \<open>
  \<open>main\<close>, for a directory that can be listed and an output file that can be created:
  the content of the output file at the end, and the package-level variables.
\<close>

definition main :: "dirEntry list \<Rightarrow> string \<times> globals" where
  "main files =
     (let asmFile = bootstrap in
      if checkForSysVM files then
        (case translateVMFileToASM initGlobals asmFile (openFile files ''Sys.vm'') of
           (err, asmFile', g') \<Rightarrow> translateEntries g' asmFile' files)
      else translateEntries initGlobals asmFile files)"

section \<open>The lines of the emitted text\<close>

text \<open>
  The emitted text is a sequence of lines, each ended by a line break: \<open>@x\<close> loads
  the value of the symbol or number \<open>x\<close> into the register \<open>A\<close>, \<open>(x)\<close> declares the label
  \<open>x\<close>, and every other line is an instruction \<open>dest=comp;jump\<close>.  \<open>splitLines [] asm\<close>
  is the list of the lines of \<open>asm\<close>; \<open>declaredLabels\<close> and \<open>namedSymbols\<close> are the labels
  that a text declares and the symbols that its \<open>@\<close> lines name, in the order of the text.
\<close>

fun splitLines :: "string \<Rightarrow> string \<Rightarrow> string list" where
  "splitLines cur [] = (if cur = [] then [] else [cur])"
| "splitLines cur (c # cs) =
     (if c = CHR 0x0A then cur # splitLines [] cs else splitLines (cur @ [c]) cs)"

definition declaredLabels :: "string \<Rightarrow> string list" where
  "declaredLabels asm =
     map (\<lambda>l. butlast (drop 1 l)) (filter (\<lambda>l. take 1 l = ''('') (splitLines [] asm))"

definition namedSymbols :: "string \<Rightarrow> string list" where
  "namedSymbols asm = map (drop 1) (filter (\<lambda>l. take 1 l = ''@'') (splitLines [] asm))"

section \<open>Runs of the translator\<close>

text \<open>
  \<open>vmCommandToAsm\<close> is the only function that reads or writes the package-level
  variables, and \<open>translateLines\<close>, \<open>translateVMFileToASM\<close>, \<open>translateEntries\<close> and \<open>main\<close>
  hand them on from one command to the next and from one source file to the next.  So a
  run of the program is a sequence of commands given to \<open>vmCommandToAsm\<close> one after the
  other on the same variables.  \<open>mainCommands files\<close> is that sequence for a run of
  \<open>main\<close>: of each file in the order of translation, the lines that are neither empty
  nor comments, up to and with the first one that fails.  (Whether a command fails does
  not depend on the package-level variables.)
\<close>

fun unitCommands :: "string list \<Rightarrow> string list" where
  "unitCommands [] = []"
| "unitCommands (l # ls) =
     (if TrimSpace l = [] \<or> HasPrefix (TrimSpace l) ''//'' then unitCommands ls
      else if isl (fst (vmCommandToAsm initGlobals (TrimSpace l))) then [TrimSpace l]
      else TrimSpace l # unitCommands ls)"

definition fileCommands :: "vmSource option \<Rightarrow> string list" where
  "fileCommands vmFile = (case vmFile of None \<Rightarrow> [] | Some src \<Rightarrow> unitCommands (srcLines src))"

definition mainCommands :: "dirEntry list \<Rightarrow> string list" where
  "mainCommands files =
     (if checkForSysVM files then fileCommands (openFile files ''Sys.vm'') else [])
     @ concat (map (\<lambda>entry. fileCommands (source entry))
         (filter (\<lambda>entry. \<not> IsDir entry \<and> HasSuffix (Name entry) ''.vm'' \<and> Name entry \<noteq> ''Sys.vm'')
            files))"

text \<open>
  \<open>comparisonLabels g cmds\<close> lists the labels that the blocks emitted for the \<open>eq\<close>, \<open>lt\<close>
  and \<open>gt\<close> commands of a run declare, in the order of the run.
\<close>

definition isComparison :: "string \<Rightarrow> bool" where
  "isComparison cmd =
     (case Fields (TrimSpace (beforeSlashes cmd)) of
        [] \<Rightarrow> False
      | p0 # operands \<Rightarrow> p0 \<in> set [''eq'', ''lt'', ''gt''])"

fun comparisonLabels :: "globals \<Rightarrow> string list \<Rightarrow> string list" where
  "comparisonLabels g [] = []"
| "comparisonLabels g (cmd # cmds) =
     (if isComparison cmd
      then (case fst (vmCommandToAsm g cmd) of Inl err \<Rightarrow> [] | Inr asm \<Rightarrow> declaredLabels asm)
      else [])
     @ comparisonLabels (snd (vmCommandToAsm g cmd)) cmds"

text \<open>The value of a counter that starts at \<open>c\<close> and is incremented \<open>i\<close> times.\<close>

definition counterAfter :: "int \<Rightarrow> nat \<Rightarrow> int" where
  "counterAfter c i = (if i = 0 then c else int64 (c + int i))"

section \<open>The stack effect of a block\<close>










section \<open>Auxiliary facts\<close>

declare WriteString.simps [simp del]
declare initLocals.simps [simp del]
declare natDigits.simps [simp del]

subsection \<open>Decimal numbers\<close>

lemma digitVal_digitChar: "d < 10 \<Longrightarrow> digitVal (digitChar d) = Some d"
  by (simp add: digitVal_def digitChar_def)

lemma parseDigits_append:
  "parseDigits acc (xs @ ys) =
     (case parseDigits acc xs of None \<Rightarrow> None | Some a \<Rightarrow> parseDigits a ys)"
  by (induction xs arbitrary: acc) (auto split: option.splits)

lemma parseDigits_natDigits: "parseDigits 0 (natDigits n) = Some n"
proof (induction n rule: natDigits.induct)
  case (1 n)
  show ?case
  proof (cases "n < 10")
    case True
    then show ?thesis
      by (subst natDigits.simps) (simp add: digitVal_digitChar)
  next
    case False
    with 1 have ih: "parseDigits 0 (natDigits (n div 10)) = Some (n div 10)" by simp
    have "n mod 10 < 10" by simp
    then have d: "digitVal (digitChar (n mod 10)) = Some (n mod 10)" by (rule digitVal_digitChar)
    show ?thesis
      using False ih d
      by (subst natDigits.simps) (simp add: parseDigits_append)
  qed
qed

lemma natDigits_inj: "natDigits m = natDigits n \<Longrightarrow> m = n"
  by (metis parseDigits_natDigits option.inject)

lemma natDigits_digits: "c \<in> set (natDigits n) \<Longrightarrow> digitVal c \<noteq> None"
proof (induction n rule: natDigits.induct)
  case (1 n)
  show ?case
  proof (cases "n < 10")
    case True
    with 1(2) show ?thesis
      by (subst (asm) natDigits.simps) (simp add: digitVal_digitChar)
  next
    case False
    have "n mod 10 < 10" by simp
    then have d: "digitVal (digitChar (n mod 10)) = Some (n mod 10)" by (rule digitVal_digitChar)
    from 1(2) False have "c \<in> set (natDigits (n div 10)) \<or> c = digitChar (n mod 10)"
      by (subst (asm) natDigits.simps) auto
    with 1(1) False d show ?thesis by auto
  qed
qed

lemma natDigits_not_Nil: "natDigits n \<noteq> []"
  by (subst natDigits.simps) simp

lemma natDigits_no_minus: "natDigits n \<noteq> CHR ''-'' # s"
proof
  assume "natDigits n = CHR ''-'' # s"
  then have "CHR ''-'' \<in> set (natDigits n)" by simp
  then have "digitVal CHR ''-'' \<noteq> None" by (rule natDigits_digits)
  then show False by (simp add: digitVal_def)
qed

lemma fmtInt_inj: "fmtInt a = fmtInt b \<Longrightarrow> a = b"
proof -
  assume eq: "fmtInt a = fmtInt b"
  show "a = b"
  proof (cases "a < 0")
    case a: True
    show ?thesis
    proof (cases "b < 0")
      case True
      with a eq have "natDigits (nat (- a)) = natDigits (nat (- b))" by (simp add: fmtInt_def)
      then have "nat (- a) = nat (- b)" by (rule natDigits_inj)
      with a True show ?thesis by simp
    next
      case False
      with a eq have "natDigits (nat b) = CHR ''-'' # natDigits (nat (- a))"
        by (simp add: fmtInt_def)
      then show ?thesis using natDigits_no_minus by blast
    qed
  next
    case a: False
    show ?thesis
    proof (cases "b < 0")
      case True
      with a eq have "natDigits (nat a) = CHR ''-'' # natDigits (nat (- b))"
        by (simp add: fmtInt_def)
      then show ?thesis using natDigits_no_minus by blast
    next
      case False
      with a eq have "natDigits (nat a) = natDigits (nat b)" by (simp add: fmtInt_def)
      then have "nat a = nat b" by (rule natDigits_inj)
      with a False show ?thesis by simp
    qed
  qed
qed

lemma digit_not_newline: "digitVal c \<noteq> None \<Longrightarrow> c \<noteq> CHR 0x0A"
  by (auto simp: digitVal_def)

lemma natDigits_no_newline: "CHR 0x0A \<notin> set (natDigits n)"
  using natDigits_digits digit_not_newline by blast

lemma fmtInt_no_newline: "CHR 0x0A \<notin> set (fmtInt n)"
  by (simp add: fmtInt_def natDigits_no_newline)

lemma Atoi_fmtInt: "- (2 ^ 63) \<le> n \<Longrightarrow> n < 2 ^ 63 \<Longrightarrow> Atoi (fmtInt n) = Some n"
proof (cases "n < 0")
  case True
  assume "- (2 ^ 63) \<le> n" "n < 2 ^ 63"
  with True show ?thesis
    by (simp add: Atoi_def fmtInt_def natDigits_not_Nil parseDigits_natDigits)
next
  case False
  assume r: "- (2 ^ 63) \<le> n" "n < 2 ^ 63"
  obtain c cs where nd: "natDigits (nat n) = c # cs"
    using natDigits_not_Nil [of "nat n"] by (cases "natDigits (nat n)") auto
  have c1: "c \<noteq> CHR ''-''" using nd natDigits_no_minus by blast
  have "digitVal c \<noteq> None" using natDigits_digits [of c "nat n"] nd by simp
  then have c2: "c \<noteq> CHR ''+''" by (auto simp: digitVal_def)
  have "parseDigits 0 (c # cs) = Some (nat n)" using parseDigits_natDigits [of "nat n"] nd by simp
  with False r nd c1 c2 show ?thesis
    by (simp add: Atoi_def fmtInt_def)
qed

subsection \<open>Wrap-around of 64-bit integers\<close>

lemma wrap_add: "(((x + h) mod m - h) + y + h) mod m = (x + y + h) mod (m::int)"
proof -
  have "((x + h) mod m - h) + y + h = (x + h) mod m + y" by simp
  then have "(((x + h) mod m - h) + y + h) mod m = ((x + h) mod m + y) mod m" by (rule arg_cong)
  also have "\<dots> = (x + h + y) mod m" by (rule mod_add_left_eq)
  finally show ?thesis by (simp add: ac_simps)
qed

lemma int64_add: "int64 (int64 x + y) = int64 (x + y)"
  unfolding int64_def using wrap_add [of x "2 ^ 63" "2 ^ 64" y] by simp

lemma wrap_eq_iff: "((x + h) mod m - h = (y + h) mod m - h) \<longleftrightarrow> (x - y) mod m = (0::int)"
proof -
  have "((x + h) mod m = (y + h) mod m) \<longleftrightarrow> ((x + h) - (y + h)) mod m = 0"
    by (metis mod_eq_dvd_iff mod_0_imp_dvd dvd_imp_mod_0)
  then show ?thesis by simp
qed

lemma int64_eq_iff: "int64 x = int64 y \<longleftrightarrow> (x - y) mod 2 ^ 64 = 0"
  unfolding int64_def by (rule wrap_eq_iff)

lemma int64_range: "- (2 ^ 63) \<le> int64 x \<and> int64 x < 2 ^ 63"
  by (simp add: int64_def)

lemma int64_id: "- (2 ^ 63) \<le> x \<Longrightarrow> x < 2 ^ 63 \<Longrightarrow> int64 x = x"
  by (simp add: int64_def)

lemma int64_idem: "int64 (int64 x) = int64 x"
  using int64_add [of x 0] by simp

lemma int64_step_ne:
  assumes "0 < d" and "d < 2 ^ 64"
  shows "int64 (x + d) \<noteq> int64 x"
proof
  assume "int64 (x + d) = int64 x"
  then have "(x + d - x) mod 2 ^ 64 = 0" by (simp only: int64_eq_iff)
  then have "d mod 2 ^ 64 = 0" by simp
  with assms show False by simp
qed

lemma counterAfter_Suc: "counterAfter (int64 (c + 1)) i = counterAfter c (Suc i)"
  by (simp add: counterAfter_def int64_add add.assoc)

lemma counterAfter_ne:
  assumes "int (Suc i) < 2 ^ 64"
  shows "counterAfter c (Suc i) \<noteq> c"
proof
  assume eq: "counterAfter c (Suc i) = c"
  then have c: "c = int64 (c + int (Suc i))" by (simp add: counterAfter_def)
  then have "int64 c = c" by (metis int64_idem)
  with c have "int64 (c + int (Suc i)) = int64 c" by simp
  moreover have "0 < int (Suc i)" by simp
  ultimately show False using int64_step_ne assms by blast
qed


subsection \<open>Tokens hold no white space\<close>




subsection \<open>Lines of a block\<close>

lemma splitLines_no_newline:
  "CHR 0x0A \<notin> set x \<Longrightarrow> splitLines cur (x @ s) = splitLines (cur @ x) s"
  by (induction x arbitrary: cur) auto



subsection \<open>Dispatch\<close>

lemma vmCommandToAsm_comparison:
  assumes "isComparison cmd"
  shows "vmCommandToAsm g cmd =
     (Inr (translateComparisonCommand (hd (Fields (TrimSpace (beforeSlashes cmd)))) (compLabelCounter g)),
      g\<lparr>compLabelCounter := int64 (compLabelCounter g + 1)\<rparr>)"
proof -
  obtain p0 operands where f: "Fields (TrimSpace (beforeSlashes cmd)) = p0 # operands"
    and p0: "p0 \<in> set [''eq'', ''lt'', ''gt'']"
    using assms by (auto simp: isComparison_def split: list.splits)
  from p0 have "p0 = ''eq'' \<or> p0 = ''lt'' \<or> p0 = ''gt''" by simp
  then show ?thesis
    using f by (auto simp: vmCommandToAsm_def Let_def)
qed

lemma vmCommandToAsm_other_counter:
  assumes "\<not> isComparison cmd"
  shows "compLabelCounter (snd (vmCommandToAsm g cmd)) = compLabelCounter g"
proof (cases "Fields (TrimSpace (beforeSlashes cmd))")
  case Nil
  then show ?thesis by (simp add: vmCommandToAsm_def)
next
  case (Cons p0 operands)
  with assms have n: "p0 \<notin> set [''eq'', ''lt'', ''gt'']" by (simp add: isComparison_def)
  show ?thesis
    unfolding vmCommandToAsm_def Let_def Cons
    using n by (simp add: translateCallCommand_def Let_def split: option.split)
qed

lemma isComparison_hd:
  "isComparison cmd \<Longrightarrow> length (hd (Fields (TrimSpace (beforeSlashes cmd)))) = 2"
  by (auto simp: isComparison_def split: list.splits)

subsection \<open>Labels\<close>

lemma trueLabel_inj:
  "length p = length q \<Longrightarrow> trueLabel p c = trueLabel q d \<Longrightarrow> c = d"
  by (simp add: trueLabel_def ToUpper_def fmtInt_inj)

lemma endLabel_inj:
  "length p = length q \<Longrightarrow> endLabel p c = endLabel q d \<Longrightarrow> c = d"
  by (simp add: endLabel_def ToUpper_def fmtInt_inj)

lemma trueLabel_ne_endLabel:
  "length p = length q \<Longrightarrow> trueLabel p c \<noteq> endLabel q d"
  by (simp add: trueLabel_def endLabel_def ToUpper_def)

lemma ToUpper_comparison:
  "ToUpper ''eq'' = ''EQ''" "ToUpper ''lt'' = ''LT''" "ToUpper ''gt'' = ''GT''"
  by code_simp+

lemma translateComparisonCommand_labels:
  assumes "p \<in> set [''eq'', ''lt'', ''gt'']"
  shows "declaredLabels (translateComparisonCommand p c) = [trueLabel p c, endLabel p c]"
    and "namedSymbols (translateComparisonCommand p c)
         = [''SP'', trueLabel p c, ''SP'', endLabel p c, ''SP'']"
proof -
  have n: "CHR 0x0A \<notin> set (fmtInt c)" by (rule fmtInt_no_newline)
  from assms have p: "p = ''eq'' \<or> p = ''lt'' \<or> p = ''gt''" by simp
  from p n show "declaredLabels (translateComparisonCommand p c) = [trueLabel p c, endLabel p c]"
    by (auto simp: declaredLabels_def translateComparisonCommand_def trueLabel_def endLabel_def
          ToUpper_comparison jumpInstruction_def splitLines_no_newline butlast_append)
  from p n show "namedSymbols (translateComparisonCommand p c)
         = [''SP'', trueLabel p c, ''SP'', endLabel p c, ''SP'']"
    by (auto simp: namedSymbols_def translateComparisonCommand_def trueLabel_def endLabel_def
          ToUpper_comparison jumpInstruction_def splitLines_no_newline)
qed

lemma comparisonLabels_Cons:
  "comparisonLabels g (cmd # cmds) =
     (if isComparison cmd
      then [trueLabel (hd (Fields (TrimSpace (beforeSlashes cmd)))) (compLabelCounter g),
            endLabel (hd (Fields (TrimSpace (beforeSlashes cmd)))) (compLabelCounter g)]
      else [])
     @ comparisonLabels (snd (vmCommandToAsm g cmd)) cmds"
proof (cases "isComparison cmd")
  case True
  then have "hd (Fields (TrimSpace (beforeSlashes cmd))) \<in> set [''eq'', ''lt'', ''gt'']"
    by (auto simp: isComparison_def split: list.splits)
  from translateComparisonCommand_labels(1) [OF this] True show ?thesis
    by (simp add: vmCommandToAsm_comparison [OF True])
next
  case False
  then show ?thesis by simp
qed

declare comparisonLabels.simps(2) [simp del]
declare comparisonLabels_Cons [simp]

lemma vmCommandToAsm_comparison_text:
  assumes "isComparison cmd"
  shows "\<exists>OP J asm.
     (hd (Fields (TrimSpace (beforeSlashes cmd))), OP, J)
       \<in> set [(''eq'', ''EQ'', ''JEQ''), (''lt'', ''LT'', ''JLT''), (''gt'', ''GT'', ''JGT'')]
     \<and> asm =
         ''@SP\<newline>AM=M-1\<newline>D=M\<newline>A=A-1\<newline>D=M-D\<newline>'' @
         ''@'' @ OP @ ''_TRUE_'' @ fmtInt (compLabelCounter g) @ ''\<newline>D;'' @ J @ ''\<newline>'' @
         ''@SP\<newline>A=M-1\<newline>M=0\<newline>'' @
         ''@'' @ OP @ ''_END_'' @ fmtInt (compLabelCounter g) @ ''\<newline>0;JMP\<newline>'' @
         ''('' @ OP @ ''_TRUE_'' @ fmtInt (compLabelCounter g) @ '')\<newline>'' @
         ''@SP\<newline>A=M-1\<newline>M=-1\<newline>'' @
         ''('' @ OP @ ''_END_'' @ fmtInt (compLabelCounter g) @ '')\<newline>''
     \<and> vmCommandToAsm g cmd
         = (Inr asm, g\<lparr>compLabelCounter := int64 (compLabelCounter g + 1)\<rparr>)
     \<and> declaredLabels asm
         = [OP @ ''_TRUE_'' @ fmtInt (compLabelCounter g),
            OP @ ''_END_'' @ fmtInt (compLabelCounter g)]
     \<and> namedSymbols asm
         = [''SP'', OP @ ''_TRUE_'' @ fmtInt (compLabelCounter g), ''SP'',
            OP @ ''_END_'' @ fmtInt (compLabelCounter g), ''SP'']"
proof -
  let ?p = "hd (Fields (TrimSpace (beforeSlashes cmd)))"
  let ?c = "compLabelCounter g"
  from assms have p: "?p \<in> set [''eq'', ''lt'', ''gt'']"
    by (auto simp: isComparison_def split: list.splits)
  note v = vmCommandToAsm_comparison [OF assms, of g]
  note l = translateComparisonCommand_labels [OF p, of ?c]
  from p consider "?p = ''eq''" | "?p = ''lt''" | "?p = ''gt''" by auto
  then show ?thesis
  proof cases
    case 1
    have t: "translateComparisonCommand ?p ?c =
         ''@SP\<newline>AM=M-1\<newline>D=M\<newline>A=A-1\<newline>D=M-D\<newline>'' @
         ''@'' @ ''EQ'' @ ''_TRUE_'' @ fmtInt ?c @ ''\<newline>D;'' @ ''JEQ'' @ ''\<newline>'' @
         ''@SP\<newline>A=M-1\<newline>M=0\<newline>'' @
         ''@'' @ ''EQ'' @ ''_END_'' @ fmtInt ?c @ ''\<newline>0;JMP\<newline>'' @
         ''('' @ ''EQ'' @ ''_TRUE_'' @ fmtInt ?c @ '')\<newline>'' @
         ''@SP\<newline>A=M-1\<newline>M=-1\<newline>'' @
         ''('' @ ''EQ'' @ ''_END_'' @ fmtInt ?c @ '')\<newline>''"
      unfolding 1
      by (simp add: translateComparisonCommand_def trueLabel_def endLabel_def
            ToUpper_comparison jumpInstruction_def)
    have tl: "trueLabel ?p ?c = ''EQ'' @ ''_TRUE_'' @ fmtInt ?c"
      and el: "endLabel ?p ?c = ''EQ'' @ ''_END_'' @ fmtInt ?c"
      unfolding 1 by (simp_all add: trueLabel_def endLabel_def ToUpper_comparison)
    show ?thesis
      apply (rule exI [of _ "''EQ''"])
      apply (rule exI [of _ "''JEQ''"])
      apply (rule exI [of _ "translateComparisonCommand ?p ?c"])
      apply (intro conjI)
          apply (simp add: 1)
         apply (rule t)
        apply (rule v)
       apply (simp only: l tl el)
      apply (simp only: l tl el)
      done
  next
    case 2
    have t: "translateComparisonCommand ?p ?c =
         ''@SP\<newline>AM=M-1\<newline>D=M\<newline>A=A-1\<newline>D=M-D\<newline>'' @
         ''@'' @ ''LT'' @ ''_TRUE_'' @ fmtInt ?c @ ''\<newline>D;'' @ ''JLT'' @ ''\<newline>'' @
         ''@SP\<newline>A=M-1\<newline>M=0\<newline>'' @
         ''@'' @ ''LT'' @ ''_END_'' @ fmtInt ?c @ ''\<newline>0;JMP\<newline>'' @
         ''('' @ ''LT'' @ ''_TRUE_'' @ fmtInt ?c @ '')\<newline>'' @
         ''@SP\<newline>A=M-1\<newline>M=-1\<newline>'' @
         ''('' @ ''LT'' @ ''_END_'' @ fmtInt ?c @ '')\<newline>''"
      unfolding 2
      by (simp add: translateComparisonCommand_def trueLabel_def endLabel_def
            ToUpper_comparison jumpInstruction_def)
    have tl: "trueLabel ?p ?c = ''LT'' @ ''_TRUE_'' @ fmtInt ?c"
      and el: "endLabel ?p ?c = ''LT'' @ ''_END_'' @ fmtInt ?c"
      unfolding 2 by (simp_all add: trueLabel_def endLabel_def ToUpper_comparison)
    show ?thesis
      apply (rule exI [of _ "''LT''"])
      apply (rule exI [of _ "''JLT''"])
      apply (rule exI [of _ "translateComparisonCommand ?p ?c"])
      apply (intro conjI)
          apply (simp add: 2)
         apply (rule t)
        apply (rule v)
       apply (simp only: l tl el)
      apply (simp only: l tl el)
      done
  next
    case 3
    have t: "translateComparisonCommand ?p ?c =
         ''@SP\<newline>AM=M-1\<newline>D=M\<newline>A=A-1\<newline>D=M-D\<newline>'' @
         ''@'' @ ''GT'' @ ''_TRUE_'' @ fmtInt ?c @ ''\<newline>D;'' @ ''JGT'' @ ''\<newline>'' @
         ''@SP\<newline>A=M-1\<newline>M=0\<newline>'' @
         ''@'' @ ''GT'' @ ''_END_'' @ fmtInt ?c @ ''\<newline>0;JMP\<newline>'' @
         ''('' @ ''GT'' @ ''_TRUE_'' @ fmtInt ?c @ '')\<newline>'' @
         ''@SP\<newline>A=M-1\<newline>M=-1\<newline>'' @
         ''('' @ ''GT'' @ ''_END_'' @ fmtInt ?c @ '')\<newline>''"
      unfolding 3
      by (simp add: translateComparisonCommand_def trueLabel_def endLabel_def
            ToUpper_comparison jumpInstruction_def)
    have tl: "trueLabel ?p ?c = ''GT'' @ ''_TRUE_'' @ fmtInt ?c"
      and el: "endLabel ?p ?c = ''GT'' @ ''_END_'' @ fmtInt ?c"
      unfolding 3 by (simp_all add: trueLabel_def endLabel_def ToUpper_comparison)
    show ?thesis
      apply (rule exI [of _ "''GT''"])
      apply (rule exI [of _ "''JGT''"])
      apply (rule exI [of _ "translateComparisonCommand ?p ?c"])
      apply (intro conjI)
          apply (simp add: 3)
         apply (rule t)
        apply (rule v)
       apply (simp only: l tl el)
      apply (simp only: l tl el)
      done
  qed
qed

lemma comparisonLabels_shape:
  "l \<in> set (comparisonLabels g cmds) \<Longrightarrow>
     \<exists>p i. length p = 2 \<and> i < length (filter isComparison cmds) \<and>
       (l = trueLabel p (counterAfter (compLabelCounter g) i) \<or>
        l = endLabel p (counterAfter (compLabelCounter g) i))"
proof (induction cmds arbitrary: g)
  case Nil
  then show ?case by simp
next
  case (Cons cmd cmds)
  let ?c = "compLabelCounter g"
  let ?p = "hd (Fields (TrimSpace (beforeSlashes cmd)))"
  show ?case
  proof (cases "isComparison cmd")
    case True
    have g': "compLabelCounter (snd (vmCommandToAsm g cmd)) = int64 (?c + 1)"
      by (simp add: vmCommandToAsm_comparison [OF True])
    from Cons.prems True
    consider "l = trueLabel ?p ?c" | "l = endLabel ?p ?c"
      | "l \<in> set (comparisonLabels (snd (vmCommandToAsm g cmd)) cmds)"
      by auto
    then show ?thesis
    proof cases
      case 1
      have "counterAfter ?c 0 = ?c" by (simp add: counterAfter_def)
      with 1 True isComparison_hd [OF True] show ?thesis
        by (intro exI [of _ ?p] exI [of _ 0]) simp
    next
      case 2
      have "counterAfter ?c 0 = ?c" by (simp add: counterAfter_def)
      with 2 True isComparison_hd [OF True] show ?thesis
        by (intro exI [of _ ?p] exI [of _ 0]) simp
    next
      case 3
      from Cons.IH [OF 3] obtain p i where
        pi: "length p = 2" "i < length (filter isComparison cmds)"
          "l = trueLabel p (counterAfter (int64 (?c + 1)) i) \<or>
           l = endLabel p (counterAfter (int64 (?c + 1)) i)"
        unfolding g' by blast
      then show ?thesis
        using True by (intro exI [of _ p] exI [of _ "Suc i"]) (simp add: counterAfter_Suc)
    qed
  next
    case False
    have g': "compLabelCounter (snd (vmCommandToAsm g cmd)) = ?c"
      by (rule vmCommandToAsm_other_counter [OF False])
    from Cons.prems False
    have "l \<in> set (comparisonLabels (snd (vmCommandToAsm g cmd)) cmds)" by simp
    from Cons.IH [OF this] show ?thesis
      unfolding g' using False by simp
  qed
qed

lemma comparisonLabels_length:
  "length (comparisonLabels g cmds) = 2 * length (filter isComparison cmds)"
  by (induction cmds arbitrary: g) auto

lemma comparisonLabels_distinct:
  "int (length (filter isComparison cmds)) \<le> 2 ^ 64 \<Longrightarrow> distinct (comparisonLabels g cmds)"
proof (induction cmds arbitrary: g)
  case Nil
  then show ?case by simp
next
  case (Cons cmd cmds)
  let ?c = "compLabelCounter g"
  let ?p = "hd (Fields (TrimSpace (beforeSlashes cmd)))"
  let ?rest = "comparisonLabels (snd (vmCommandToAsm g cmd)) cmds"
  from Cons.prems have le: "int (length (filter isComparison cmds)) \<le> 2 ^ 64"
    by (simp split: if_splits)
  have d: "distinct ?rest" by (rule Cons.IH [OF le])
  show ?case
  proof (cases "isComparison cmd")
    case True
    have g': "compLabelCounter (snd (vmCommandToAsm g cmd)) = int64 (?c + 1)"
      by (simp add: vmCommandToAsm_comparison [OF True])
    have lp: "length ?p = 2" by (rule isComparison_hd [OF True])
    from Cons.prems True have lt: "int (length (filter isComparison cmds)) < 2 ^ 64" by simp
    have fresh: "l \<noteq> trueLabel ?p ?c \<and> l \<noteq> endLabel ?p ?c" if "l \<in> set ?rest" for l
    proof -
      from comparisonLabels_shape [OF that] obtain p i where
        pi: "length p = 2" "i < length (filter isComparison cmds)"
          "l = trueLabel p (counterAfter ?c (Suc i)) \<or> l = endLabel p (counterAfter ?c (Suc i))"
        unfolding g' counterAfter_Suc by blast
      from pi(2) lt have "int (Suc i) < 2 ^ 64" by simp
      then have ne: "counterAfter ?c (Suc i) \<noteq> ?c" by (rule counterAfter_ne)
      have len: "length p = length ?p" using pi(1) lp by simp
      show ?thesis
        using pi(3) ne trueLabel_inj [OF len] endLabel_inj [OF len]
          trueLabel_ne_endLabel [OF len] trueLabel_ne_endLabel [OF len [symmetric]]
        by metis
    qed
    have "trueLabel ?p ?c \<noteq> endLabel ?p ?c" by (rule trueLabel_ne_endLabel) simp
    with d fresh True show ?thesis by auto
  next
    case False
    with d show ?thesis by simp
  qed
qed

lemma vmCommandToAsm_error_globals:
  "fst (vmCommandToAsm g cmd) = Inl e \<longrightarrow> snd (vmCommandToAsm g cmd) = g"
proof (cases "Fields (TrimSpace (beforeSlashes cmd))")
  case Nil
  then show ?thesis by (simp add: vmCommandToAsm_def)
next
  case (Cons p0 operands)
  show ?thesis
    unfolding vmCommandToAsm_def Let_def Cons
    by (simp add: translateCallCommand_def Let_def split: option.split)
qed

lemma vmCommandToAsm_function_call:
  assumes "Fields (TrimSpace (beforeSlashes cmd)) = p0 # operands"
    and "p0 = ''function'' \<or> p0 = ''call''"
  shows "vmCommandToAsm g cmd =
     (if length operands \<noteq> 2 then
        (Inl (Errorf (''invalid '' @ p0 @ '' command: '' @ TrimSpace (beforeSlashes cmd))), g)
      else case Atoi (operands ! 1) of
          None \<Rightarrow> (Inl (Errorf (''invalid number for '' @ p0 @ '' command: '' @ operands ! 1)), g)
        | Some k \<Rightarrow>
            if p0 = ''function'' then (translateFunctionCommand (operands ! 0) k, g)
            else translateCallCommand g (operands ! 0) k)"
  using assms(2)
proof
  assume p: "p0 = ''function''"
  show ?thesis
    unfolding vmCommandToAsm_def Let_def assms(1) p
    by (simp split: option.split)
next
  assume p: "p0 = ''call''"
  show ?thesis
    unfolding vmCommandToAsm_def Let_def assms(1) p
    by (simp split: option.split)
qed

lemma vmCommandToAsm_push_pop:
  assumes "Fields (TrimSpace (beforeSlashes cmd)) = [p0, segment, index]"
    and "p0 = ''push'' \<or> p0 = ''pop''"
  shows "vmCommandToAsm g cmd =
     (if p0 = ''push'' then translatePushCommand segment index (fileName g)
      else translatePopCommand segment index (fileName g), g)"
  using assms by (auto simp: vmCommandToAsm_def Let_def)

lemma length_2_conv: "length xs = 2 \<longleftrightarrow> (\<exists>a b. xs = [a, b])"
  by (cases xs; cases "tl xs"; auto)



subsection \<open>The buffered writer\<close>

lemma WriteString_prepend:
  "WriteString (f @ fst w, snd w) s = (f @ fst (WriteString w s), snd (WriteString w s))"
proof (induction w s rule: WriteString.induct)
  case (1 fl buf s)
  show ?case
  proof (cases "defaultBufSize - length buf < length s \<and> length buf \<noteq> 0")
    case True
    with 1 have ih:
      "WriteString (f @ fl @ buf @ take (defaultBufSize - length buf) s, [])
         (drop (defaultBufSize - length buf) s)
       = (f @ fst (WriteString (fl @ buf @ take (defaultBufSize - length buf) s, [])
                     (drop (defaultBufSize - length buf) s)),
          snd (WriteString (fl @ buf @ take (defaultBufSize - length buf) s, [])
                     (drop (defaultBufSize - length buf) s)))"
      by simp
    show ?thesis
      using True ih
      by (simp add: WriteString.simps [of "f @ fl" buf s] WriteString.simps [of fl buf s])
  next
    case False
    then show ?thesis
      by (auto simp: WriteString.simps [of "f @ fl" buf s] WriteString.simps [of fl buf s])
  qed
qed

lemma WriteString_content:
  "fst (WriteString w s) @ snd (WriteString w s) = fst w @ snd w @ s"
proof (induction w s rule: WriteString.induct)
  case (1 fl buf s)
  show ?case
  proof (cases "defaultBufSize - length buf < length s \<and> length buf \<noteq> 0")
    case True
    with 1 show ?thesis
      by (simp add: WriteString.simps [of fl buf s])
  next
    case False
    then show ?thesis
      by (auto simp: WriteString.simps [of fl buf s])
  qed
qed

lemma WriteString_buffer_bound:
  "length (snd w) \<le> defaultBufSize \<Longrightarrow> length (snd (WriteString w s)) \<le> defaultBufSize"
proof (induction w s rule: WriteString.induct)
  case (1 fl buf s)
  show ?case
  proof (cases "defaultBufSize - length buf < length s \<and> length buf \<noteq> 0")
    case True
    with 1 show ?thesis
      by (simp add: WriteString.simps [of fl buf s])
  next
    case False
    with 1(2) show ?thesis
      by (auto simp: WriteString.simps [of fl buf s])
  qed
qed

lemma translateLines_buffer_bound:
  "length (snd w) \<le> defaultBufSize \<Longrightarrow>
   length (snd (fst (snd (translateLines g w ls)))) \<le> defaultBufSize"
proof (induction ls arbitrary: g w)
  case Nil
  then show ?case by simp
next
  case (Cons l ls)
  show ?case
  proof (cases "TrimSpace l = [] \<or> HasPrefix (TrimSpace l) ''//''")
    case True
    then show ?thesis using Cons.IH [OF Cons.prems, of g] by simp
  next
    case False
    obtain r g1 where v: "vmCommandToAsm g (TrimSpace l) = (r, g1)"
      by (cases "vmCommandToAsm g (TrimSpace l)")
    show ?thesis
    proof (cases r)
      case (Inl e)
      with False v Cons.prems show ?thesis by simp
    next
      case (Inr asm)
      have "length (snd (WriteString w asm)) \<le> defaultBufSize"
        using Cons.prems by (rule WriteString_buffer_bound)
      from Cons.IH [OF this, of g1] False v Inr show ?thesis by simp
    qed
  qed
qed

lemma translateLines_prepend:
  "translateLines g (f @ fst w, snd w) ls =
     (case translateLines g w ls of (r, w', g') \<Rightarrow> (r, (f @ fst w', snd w'), g'))"
proof (induction ls arbitrary: g w)
  case Nil
  then show ?case by simp
next
  case (Cons l ls)
  show ?case
  proof (cases "TrimSpace l = [] \<or> HasPrefix (TrimSpace l) ''//''")
    case True
    then show ?thesis using Cons.IH [of g w] by simp
  next
    case False
    obtain r g1 where v: "vmCommandToAsm g (TrimSpace l) = (r, g1)" by (cases "vmCommandToAsm g (TrimSpace l)")
    show ?thesis
    proof (cases r)
      case (Inl e)
      with False v show ?thesis by simp
    next
      case (Inr asm)
      have "translateLines g1 (WriteString (f @ fst w, snd w) asm) ls
            = (case translateLines g1 (WriteString w asm) ls of
                 (r, w', g') \<Rightarrow> (r, (f @ fst w', snd w'), g'))"
        using Cons.IH [of g1 "WriteString w asm"] by (simp add: WriteString_prepend)
      with False v Inr show ?thesis by simp
    qed
  qed
qed

lemma translateVMFileToASM_prepend:
  "translateVMFileToASM g (f @ asmFile) vmFile =
     (case translateVMFileToASM g asmFile vmFile of (r, out, g') \<Rightarrow> (r, f @ out, g'))"
proof (cases vmFile)
  case None
  then show ?thesis by (simp add: translateVMFileToASM_def)
next
  case (Some src)
  have "translateLines g (f @ asmFile, []) (srcLines src) =
     (case translateLines g (asmFile, []) (srcLines src) of
        (r, w', g') \<Rightarrow> (r, (f @ fst w', snd w'), g'))"
    using translateLines_prepend [of g f "(asmFile, [])"] by simp
  then show ?thesis
    using Some
    by (auto simp: translateVMFileToASM_def Flush_def split: prod.splits option.splits)
qed

lemma translateVMFileToASM_from_empty:
  "translateVMFileToASM g asmFile vmFile =
     (fst (translateVMFileToASM g [] vmFile),
      asmFile @ fst (snd (translateVMFileToASM g [] vmFile)),
      snd (snd (translateVMFileToASM g [] vmFile)))"
  using translateVMFileToASM_prepend [of g asmFile "[]" vmFile]
  by (simp split: prod.splits)

lemma translateEntries_prepend:
  "translateEntries g (f @ asmFile) files =
     (f @ fst (translateEntries g asmFile files), snd (translateEntries g asmFile files))"
proof (induction files arbitrary: g asmFile)
  case Nil
  then show ?case by simp
next
  case (Cons entry files)
  show ?case
  proof (cases "\<not> IsDir entry \<and> HasSuffix (Name entry) ''.vm'' \<and> Name entry \<noteq> ''Sys.vm''")
    case True
    obtain r out g1 where t: "translateVMFileToASM g asmFile (source entry) = (r, out, g1)"
      by (cases "translateVMFileToASM g asmFile (source entry)")
    then have t': "translateVMFileToASM g (f @ asmFile) (source entry) = (r, f @ out, g1)"
      by (simp add: translateVMFileToASM_prepend)
    show ?thesis
      using True t t' Cons.IH [of g1 out] by simp
  next
    case False
    then show ?thesis using Cons.IH [of g asmFile] by auto
  qed
qed

lemma translateEntries_from_empty:
  "translateEntries g asmFile files =
     (asmFile @ fst (translateEntries g [] files), snd (translateEntries g [] files))"
  using translateEntries_prepend [of g asmFile "[]" files] by simp

lemma translateEntries_skip:
  "Name entry = ''Sys.vm'' \<Longrightarrow>
   translateEntries g asmFile (filter (\<lambda>e. e \<noteq> entry) files) = translateEntries g asmFile files"
proof (induction files arbitrary: g asmFile)
  case Nil
  then show ?case by simp
next
  case (Cons e files)
  then show ?case by (cases "e = entry") (auto split: prod.splits)
qed

lemma translateEntries_append:
  "translateEntries g asmFile (before @ after) =
     translateEntries (snd (translateEntries g asmFile before))
       (fst (translateEntries g asmFile before)) after"
  by (induction before arbitrary: g asmFile) (auto split: prod.splits)

lemma checkForSysVM_iff:
  "checkForSysVM files \<longleftrightarrow> (\<exists>entry \<in> set files. \<not> IsDir entry \<and> Name entry = ''Sys.vm'')"
  by (induction files) auto

lemma find_by_name:
  "distinct (map Name files) \<Longrightarrow> entry \<in> set files \<Longrightarrow>
   find (\<lambda>e. Name e = Name entry) files = Some entry"
  by (induction files) (auto simp: rev_image_eqI)

subsection \<open>A source file that fails\<close>

lemma translateLines_failure:
  "translateLines g w ls = (Some err, w', g') \<Longrightarrow>
   \<exists>k < length ls. fst (vmCommandToAsm g' (TrimSpace (ls ! k))) = Inl err
     \<and> translateLines g w (take k ls) = (None, w', g')"
proof (induction ls arbitrary: g w)
  case Nil
  then show ?case by simp
next
  case (Cons l ls)
  show ?case
  proof (cases "TrimSpace l = [] \<or> HasPrefix (TrimSpace l) ''//''")
    case True
    with Cons.prems have "translateLines g w ls = (Some err, w', g')" by simp
    from Cons.IH [OF this] obtain k where
      k: "k < length ls" "fst (vmCommandToAsm g' (TrimSpace (ls ! k))) = Inl err"
         "translateLines g w (take k ls) = (None, w', g')"
      by blast
    with True show ?thesis by (intro exI [of _ "Suc k"]) simp
  next
    case False
    obtain r g1 where v: "vmCommandToAsm g (TrimSpace l) = (r, g1)"
      by (cases "vmCommandToAsm g (TrimSpace l)")
    show ?thesis
    proof (cases r)
      case (Inl e)
      with v have "g1 = g" using vmCommandToAsm_error_globals [of g "TrimSpace l" e] by simp
      with Cons.prems False v Inl show ?thesis by (intro exI [of _ 0]) auto
    next
      case (Inr asm)
      with Cons.prems False v
      have "translateLines g1 (WriteString w asm) ls = (Some err, w', g')" by simp
      from Cons.IH [OF this] obtain k where
        k: "k < length ls" "fst (vmCommandToAsm g' (TrimSpace (ls ! k))) = Inl err"
           "translateLines g1 (WriteString w asm) (take k ls) = (None, w', g')"
        by blast
      with False v Inr show ?thesis by (intro exI [of _ "Suc k"]) simp
    qed
  qed
qed

lemma translateLines_file_grows:
  "translateLines g (asmFile, []) ls = (r, w', g') \<Longrightarrow> \<exists>written. fst w' = asmFile @ written"
  using translateLines_prepend [of g asmFile "([], [])" ls]
  by (auto split: prod.splits)

lemma translateVMFileToASM_failure:
  assumes "translateVMFileToASM g asmFile (Some src) = (Some (Errorf msg), out, g')"
  shows "\<exists>k written lost. k < length (srcLines src)
     \<and> fst (vmCommandToAsm g' (TrimSpace (srcLines src ! k))) = Inl (Errorf msg)
     \<and> translateVMFileToASM g asmFile (Some \<lparr>srcLines = take k (srcLines src), srcErr = False\<rparr>)
         = (None, asmFile @ written @ lost, g')
     \<and> out = asmFile @ written \<and> length lost \<le> 4096"
proof -
  obtain r w' g1 where t: "translateLines g (asmFile, []) (srcLines src) = (r, w', g1)"
    by (cases "translateLines g (asmFile, []) (srcLines src)")
  from assms t have r: "r = Some (Errorf msg)" and out: "out = fst w'" and g1: "g1 = g'"
    by (auto simp: translateVMFileToASM_def split: option.splits if_splits)
  from translateLines_failure [OF t [unfolded r]] obtain k where
    k: "k < length (srcLines src)"
       "fst (vmCommandToAsm g1 (TrimSpace (srcLines src ! k))) = Inl (Errorf msg)"
       "translateLines g (asmFile, []) (take k (srcLines src)) = (None, w', g1)"
    by blast
  from translateLines_file_grows [OF t] obtain written where w: "fst w' = asmFile @ written"
    by blast
  have "translateVMFileToASM g asmFile (Some \<lparr>srcLines = take k (srcLines src), srcErr = False\<rparr>)
         = (None, asmFile @ written @ snd w', g1)"
    using k(3) w by (simp add: translateVMFileToASM_def Flush_def)
  moreover have "length (snd w') \<le> 4096"
    using translateLines_buffer_bound [of "(asmFile, [])" g "srcLines src"] t
    by (simp add: defaultBufSize_def)
  ultimately show ?thesis using k(1,2) out w g1 by blast
qed

subsection \<open>The commands of a run\<close>

lemma vmCommandToAsm_failure_independent:
  "isl (fst (vmCommandToAsm g cmd)) = isl (fst (vmCommandToAsm g' cmd))"
proof (cases "Fields (TrimSpace (beforeSlashes cmd))")
  case Nil
  then show ?thesis by (simp add: vmCommandToAsm_def)
next
  case (Cons p0 operands)
  show ?thesis
    unfolding vmCommandToAsm_def Let_def Cons
    by (simp add: translateCallCommand_def translateFunctionCommand_def
          translatePushCommand_def translatePopCommand_def Let_def split: option.split)
qed

lemma translateLines_globals:
  "snd (snd (translateLines g w ls))
   = foldl (\<lambda>g cmd. snd (vmCommandToAsm g cmd)) g (unitCommands ls)"
proof (induction ls arbitrary: g w)
  case Nil
  then show ?case by simp
next
  case (Cons l ls)
  show ?case
  proof (cases "TrimSpace l = [] \<or> HasPrefix (TrimSpace l) ''//''")
    case True
    then show ?thesis using Cons.IH [of g w] by simp
  next
    case False
    obtain r g1 where v: "vmCommandToAsm g (TrimSpace l) = (r, g1)"
      by (cases "vmCommandToAsm g (TrimSpace l)")
    have i: "isl (fst (vmCommandToAsm initGlobals (TrimSpace l))) = isl r"
      using vmCommandToAsm_failure_independent [of initGlobals "TrimSpace l" g] v by simp
    show ?thesis
    proof (cases r)
      case (Inl e)
      with False v i show ?thesis by simp
    next
      case (Inr asm)
      with False v i Cons.IH [of g1 "WriteString w asm"] show ?thesis by simp
    qed
  qed
qed

lemma translateVMFileToASM_globals:
  "snd (snd (translateVMFileToASM g asmFile vmFile))
   = foldl (\<lambda>g cmd. snd (vmCommandToAsm g cmd)) g (fileCommands vmFile)"
proof (cases vmFile)
  case None
  then show ?thesis by (simp add: translateVMFileToASM_def fileCommands_def)
next
  case (Some src)
  then show ?thesis
    using translateLines_globals [of g "(asmFile, [])" "srcLines src"]
    by (auto simp: translateVMFileToASM_def fileCommands_def split: prod.splits option.splits)
qed

lemma translateEntries_globals:
  "snd (translateEntries g asmFile files)
   = foldl (\<lambda>g cmd. snd (vmCommandToAsm g cmd)) g
       (concat (map (\<lambda>entry. fileCommands (source entry))
         (filter (\<lambda>entry. \<not> IsDir entry \<and> HasSuffix (Name entry) ''.vm'' \<and> Name entry \<noteq> ''Sys.vm'')
            files)))"
proof (induction files arbitrary: g asmFile)
  case Nil
  then show ?case by simp
next
  case (Cons entry files)
  show ?case
  proof (cases "\<not> IsDir entry \<and> HasSuffix (Name entry) ''.vm'' \<and> Name entry \<noteq> ''Sys.vm''")
    case True
    obtain r out g1 where t: "translateVMFileToASM g asmFile (source entry) = (r, out, g1)"
      by (cases "translateVMFileToASM g asmFile (source entry)")
    then have "g1 = foldl (\<lambda>g cmd. snd (vmCommandToAsm g cmd)) g (fileCommands (source entry))"
      using translateVMFileToASM_globals [of g asmFile "source entry"] by simp
    with True t Cons.IH [of g1 out] show ?thesis by simp
  next
    case False
    with Cons.IH [of g asmFile] show ?thesis by auto
  qed
qed

lemma main_globals:
  "snd (main files)
   = foldl (\<lambda>g cmd. snd (vmCommandToAsm g cmd)) initGlobals (mainCommands files)"
proof (cases "checkForSysVM files")
  case True
  obtain r out g1 where
    t: "translateVMFileToASM initGlobals bootstrap (openFile files ''Sys.vm'') = (r, out, g1)"
    by (cases "translateVMFileToASM initGlobals bootstrap (openFile files ''Sys.vm'')")
  then have "g1 = foldl (\<lambda>g cmd. snd (vmCommandToAsm g cmd)) initGlobals
                    (fileCommands (openFile files ''Sys.vm''))"
    using translateVMFileToASM_globals [of initGlobals bootstrap "openFile files ''Sys.vm''"]
    by simp
  with True t show ?thesis
    by (simp add: main_def mainCommands_def translateEntries_globals)
next
  case False
  then show ?thesis
    by (simp add: main_def mainCommands_def translateEntries_globals)
qed

subsection \<open>The stack effect of each kind of block\<close>













section \<open>The claims\<close>

text \<open>
  Claim C1 (fails on the code).  A \<open>label\<close> command after \<open>function f k\<close> should be
  emitted as \<open>(f$label)\<close>, so that the same label text in two functions gives two
  symbols.  \<open>translateLabelCommand\<close> does put \<open>currentFunctionName\<close> in front of the
  label, but no function ever assigns that variable: it is the empty string for the
  whole run.  A source file that declares the functions \<open>Foo.a\<close> and \<open>Foo.b\<close>, each with
  a label \<open>LOOP\<close>, is translated to two declarations of the one symbol \<open>$LOOP\<close>.
\<close>

theorem label_without_function_name:
  "fst (main [\<lparr>Name = ''Foo.vm'', IsDir = False,
               source = Some \<lparr>srcLines = [''function Foo.a 0'', ''label LOOP'',
                                           ''function Foo.b 0'', ''label LOOP''],
                              srcErr = False\<rparr>\<rparr>])
   = bootstrap @ ''(Foo.a)\<newline>($LOOP)\<newline>(Foo.b)\<newline>($LOOP)\<newline>''"
  by code_simp

text \<open>
  Claim C2 (fails on the code).  \<open>push static i\<close> and \<open>pop static i\<close> should address the
  symbol \<open>unit.i\<close>, \<open>unit\<close> being the name of the source file in translation.  Both
  functions put the package-level \<open>fileName\<close> in front of the index, but \<open>main\<close> assigns
  the name of the file to a local variable of the same name, so the package-level one
  stays empty.  The files \<open>A.vm\<close> and \<open>B.vm\<close> below both address the symbol \<open>.3\<close>.
\<close>

theorem static_symbol_without_unit_name:
  "fst (main [\<lparr>Name = ''A.vm'', IsDir = False,
               source = Some \<lparr>srcLines = [''push static 3''], srcErr = False\<rparr>\<rparr>,
              \<lparr>Name = ''B.vm'', IsDir = False,
               source = Some \<lparr>srcLines = [''pop static 3''], srcErr = False\<rparr>\<rparr>])
   = bootstrap
     @ ''@.3\<newline>D=M\<newline>@SP\<newline>A=M\<newline>M=D\<newline>@SP\<newline>M=M+1\<newline>''
     @ ''@SP\<newline>AM=M-1\<newline>D=M\<newline>@.3\<newline>M=D\<newline>''"
  by code_simp

text \<open>
  Claim C3.  A command \<open>call name n\<close> is translated to, in this order: the push of the
  address of the return label \<open>name$ret.c\<close>, where \<open>c\<close> is the call counter; the pushes
  of \<open>LCL\<close>, \<open>ARG\<close>, \<open>THIS\<close> and \<open>THAT\<close>; the instructions that set \<open>ARG\<close> to \<open>SP - n - 5\<close>
  and \<open>LCL\<close> to \<open>SP\<close>; the jump to the label \<open>name\<close>; the declaration of the return
  label.  The call counter is incremented once, and nothing else changes.
\<close>

theorem call_block:
  assumes "Fields (TrimSpace (beforeSlashes cmd)) = [''call'', name, count]"
    and "Atoi count = Some n"
  shows "vmCommandToAsm g cmd =
     (Inr (''@'' @ name @ ''$ret.'' @ fmtInt (callCounter g) @
             ''\<newline>D=A\<newline>@SP\<newline>A=M\<newline>M=D\<newline>@SP\<newline>M=M+1\<newline>'' @
           ''@LCL\<newline>D=M\<newline>@SP\<newline>A=M\<newline>M=D\<newline>@SP\<newline>M=M+1\<newline>'' @
           ''@ARG\<newline>D=M\<newline>@SP\<newline>A=M\<newline>M=D\<newline>@SP\<newline>M=M+1\<newline>'' @
           ''@THIS\<newline>D=M\<newline>@SP\<newline>A=M\<newline>M=D\<newline>@SP\<newline>M=M+1\<newline>'' @
           ''@THAT\<newline>D=M\<newline>@SP\<newline>A=M\<newline>M=D\<newline>@SP\<newline>M=M+1\<newline>'' @
           ''@SP\<newline>D=M\<newline>@'' @ fmtInt n @
             ''\<newline>D=D-A\<newline>@5\<newline>D=D-A\<newline>@ARG\<newline>M=D\<newline>'' @
           ''@SP\<newline>D=M\<newline>@LCL\<newline>M=D\<newline>'' @
           ''@'' @ name @ ''\<newline>0;JMP\<newline>'' @
           ''('' @ name @ ''$ret.'' @ fmtInt (callCounter g) @ '')\<newline>''),
      g\<lparr>callCounter := int64 (callCounter g + 1)\<rparr>)"
proof -
  have "vmCommandToAsm g cmd = translateCallCommand g name n"
    using vmCommandToAsm_function_call [OF assms(1), of g] assms(2) by simp
  then show ?thesis
    by (simp add: translateCallCommand_def Let_def)
qed

theorem call_block_witness:
  "Fields (TrimSpace (beforeSlashes ''call Foo 3'')) = [''call'', ''Foo'', ''3'']
   \<and> Atoi ''3'' = Some 3
   \<and> vmCommandToAsm \<lparr>fileName = [], compLabelCounter = 0, callCounter = 7,
                       currentFunctionName = []\<rparr> ''call Foo 3'' =
     (Inr (''@Foo$ret.7\<newline>D=A\<newline>@SP\<newline>A=M\<newline>M=D\<newline>@SP\<newline>M=M+1\<newline>'' @
           ''@LCL\<newline>D=M\<newline>@SP\<newline>A=M\<newline>M=D\<newline>@SP\<newline>M=M+1\<newline>'' @
           ''@ARG\<newline>D=M\<newline>@SP\<newline>A=M\<newline>M=D\<newline>@SP\<newline>M=M+1\<newline>'' @
           ''@THIS\<newline>D=M\<newline>@SP\<newline>A=M\<newline>M=D\<newline>@SP\<newline>M=M+1\<newline>'' @
           ''@THAT\<newline>D=M\<newline>@SP\<newline>A=M\<newline>M=D\<newline>@SP\<newline>M=M+1\<newline>'' @
           ''@SP\<newline>D=M\<newline>@3\<newline>D=D-A\<newline>@5\<newline>D=D-A\<newline>@ARG\<newline>M=D\<newline>'' @
           ''@SP\<newline>D=M\<newline>@LCL\<newline>M=D\<newline>'' @
           ''@Foo\<newline>0;JMP\<newline>'' @
           ''(Foo$ret.7)\<newline>''),
      \<lparr>fileName = [], compLabelCounter = 0, callCounter = 8, currentFunctionName = []\<rparr>)"
proof -
  have f: "Fields (TrimSpace (beforeSlashes ''call Foo 3'')) = [''call'', ''Foo'', ''3'']"
    by code_simp
  have a: "Atoi ''3'' = Some 3" by code_simp
  have n7: "fmtInt 7 = ''7''" by code_simp
  have n3: "fmtInt 3 = ''3''" by code_simp
  have i: "int64 8 = 8" by (simp add: int64_def)
  show ?thesis
    using call_block [OF f a, of "\<lparr>fileName = [], compLabelCounter = 0, callCounter = 7,
                       currentFunctionName = []\<rparr>"] f a
    by (simp add: n7 n3 i)
qed

text \<open>
  Claim C4.  A command \<open>eq\<close>, \<open>lt\<close> or \<open>gt\<close> is translated to the block below, in which
  \<open>OP\<close> is the command in capital letters and \<open>n\<close> the comparison-label counter: the
  block declares two labels, \<open>OP_TRUE_n\<close> and \<open>OP_END_n\<close>, and jumps to these two and
  to nothing else; the counter is incremented once, and no other command changes it.
  In a run, the labels that the blocks of all comparison commands declare are pairwise
  distinct: the labels of different commands differ, and so do the two labels of one
  command.  A run of \<open>main\<close> is one such run, through all source files of the directory.
  The counter is a 64-bit integer that wraps around, which is why the run is taken to
  hold at most \<open>2 ^ 64\<close> comparison commands.
\<close>

theorem comparison_labels_unique:
  "(isComparison cmd \<longrightarrow>
      (\<exists>OP J asm.
         (hd (Fields (TrimSpace (beforeSlashes cmd))), OP, J)
           \<in> set [(''eq'', ''EQ'', ''JEQ''), (''lt'', ''LT'', ''JLT''), (''gt'', ''GT'', ''JGT'')]
         \<and> asm =
             ''@SP\<newline>AM=M-1\<newline>D=M\<newline>A=A-1\<newline>D=M-D\<newline>'' @
             ''@'' @ OP @ ''_TRUE_'' @ fmtInt (compLabelCounter g) @ ''\<newline>D;'' @ J @ ''\<newline>'' @
             ''@SP\<newline>A=M-1\<newline>M=0\<newline>'' @
             ''@'' @ OP @ ''_END_'' @ fmtInt (compLabelCounter g) @ ''\<newline>0;JMP\<newline>'' @
             ''('' @ OP @ ''_TRUE_'' @ fmtInt (compLabelCounter g) @ '')\<newline>'' @
             ''@SP\<newline>A=M-1\<newline>M=-1\<newline>'' @
             ''('' @ OP @ ''_END_'' @ fmtInt (compLabelCounter g) @ '')\<newline>''
         \<and> vmCommandToAsm g cmd
             = (Inr asm, g\<lparr>compLabelCounter := int64 (compLabelCounter g + 1)\<rparr>)
         \<and> declaredLabels asm
             = [OP @ ''_TRUE_'' @ fmtInt (compLabelCounter g),
                OP @ ''_END_'' @ fmtInt (compLabelCounter g)]
         \<and> namedSymbols asm
             = [''SP'', OP @ ''_TRUE_'' @ fmtInt (compLabelCounter g), ''SP'',
                OP @ ''_END_'' @ fmtInt (compLabelCounter g), ''SP'']))
   \<and> (\<not> isComparison cmd \<longrightarrow>
        compLabelCounter (snd (vmCommandToAsm g cmd)) = compLabelCounter g)
   \<and> (int (length (filter isComparison cmds)) \<le> 2 ^ 64 \<longrightarrow>
        distinct (comparisonLabels g cmds)
        \<and> length (comparisonLabels g cmds) = 2 * length (filter isComparison cmds))
   \<and> snd (main files)
       = foldl (\<lambda>g cmd. snd (vmCommandToAsm g cmd)) initGlobals (mainCommands files)
   \<and> (int (length (filter isComparison (mainCommands files))) \<le> 2 ^ 64 \<longrightarrow>
        distinct (comparisonLabels initGlobals (mainCommands files)))"
proof (intro conjI impI)
  assume "isComparison cmd"
  then show "\<exists>OP J asm.
         (hd (Fields (TrimSpace (beforeSlashes cmd))), OP, J)
           \<in> set [(''eq'', ''EQ'', ''JEQ''), (''lt'', ''LT'', ''JLT''), (''gt'', ''GT'', ''JGT'')]
         \<and> asm =
             ''@SP\<newline>AM=M-1\<newline>D=M\<newline>A=A-1\<newline>D=M-D\<newline>'' @
             ''@'' @ OP @ ''_TRUE_'' @ fmtInt (compLabelCounter g) @ ''\<newline>D;'' @ J @ ''\<newline>'' @
             ''@SP\<newline>A=M-1\<newline>M=0\<newline>'' @
             ''@'' @ OP @ ''_END_'' @ fmtInt (compLabelCounter g) @ ''\<newline>0;JMP\<newline>'' @
             ''('' @ OP @ ''_TRUE_'' @ fmtInt (compLabelCounter g) @ '')\<newline>'' @
             ''@SP\<newline>A=M-1\<newline>M=-1\<newline>'' @
             ''('' @ OP @ ''_END_'' @ fmtInt (compLabelCounter g) @ '')\<newline>''
         \<and> vmCommandToAsm g cmd
             = (Inr asm, g\<lparr>compLabelCounter := int64 (compLabelCounter g + 1)\<rparr>)
         \<and> declaredLabels asm
             = [OP @ ''_TRUE_'' @ fmtInt (compLabelCounter g),
                OP @ ''_END_'' @ fmtInt (compLabelCounter g)]
         \<and> namedSymbols asm
             = [''SP'', OP @ ''_TRUE_'' @ fmtInt (compLabelCounter g), ''SP'',
                OP @ ''_END_'' @ fmtInt (compLabelCounter g), ''SP'']"
    by (rule vmCommandToAsm_comparison_text)
next
  assume "\<not> isComparison cmd"
  then show "compLabelCounter (snd (vmCommandToAsm g cmd)) = compLabelCounter g"
    by (rule vmCommandToAsm_other_counter)
next
  assume "int (length (filter isComparison cmds)) \<le> 2 ^ 64"
  then show "distinct (comparisonLabels g cmds)" by (rule comparisonLabels_distinct)
next
  show "length (comparisonLabels g cmds) = 2 * length (filter isComparison cmds)"
    by (rule comparisonLabels_length)
next
  show "snd (main files)
       = foldl (\<lambda>g cmd. snd (vmCommandToAsm g cmd)) initGlobals (mainCommands files)"
    by (rule main_globals)
next
  assume "int (length (filter isComparison (mainCommands files))) \<le> 2 ^ 64"
  then show "distinct (comparisonLabels initGlobals (mainCommands files))"
    by (rule comparisonLabels_distinct)
qed

theorem comparison_labels_unique_witness:
  "isComparison ''lt'' \<and> \<not> isComparison ''push constant 1''
   \<and> vmCommandToAsm \<lparr>fileName = [], compLabelCounter = 7, callCounter = 0,
                       currentFunctionName = []\<rparr> ''lt''
       = (Inr (''@SP\<newline>AM=M-1\<newline>D=M\<newline>A=A-1\<newline>D=M-D\<newline>'' @
               ''@LT_TRUE_7\<newline>D;JLT\<newline>'' @
               ''@SP\<newline>A=M-1\<newline>M=0\<newline>'' @
               ''@LT_END_7\<newline>0;JMP\<newline>'' @
               ''(LT_TRUE_7)\<newline>'' @
               ''@SP\<newline>A=M-1\<newline>M=-1\<newline>'' @
               ''(LT_END_7)\<newline>''),
          \<lparr>fileName = [], compLabelCounter = 8, callCounter = 0, currentFunctionName = []\<rparr>)
   \<and> compLabelCounter (snd (vmCommandToAsm initGlobals ''push constant 1'')) = 0
   \<and> mainCommands
        [\<lparr>Name = ''A.vm'', IsDir = False,
          source = Some \<lparr>srcLines = [''eq'', ''push constant 1'', ''lt''], srcErr = False\<rparr>\<rparr>,
         \<lparr>Name = ''B.vm'', IsDir = False,
          source = Some \<lparr>srcLines = [''eq''], srcErr = False\<rparr>\<rparr>]
       = [''eq'', ''push constant 1'', ''lt'', ''eq'']
   \<and> int (length (filter isComparison [''eq'', ''push constant 1'', ''lt'', ''eq''])) \<le> 2 ^ 64
   \<and> comparisonLabels initGlobals [''eq'', ''push constant 1'', ''lt'', ''eq'']
       = [''EQ_TRUE_0'', ''EQ_END_0'', ''LT_TRUE_1'', ''LT_END_1'', ''EQ_TRUE_2'', ''EQ_END_2'']
   \<and> distinct (comparisonLabels initGlobals [''eq'', ''push constant 1'', ''lt'', ''eq''])"
proof -
  let ?files = "[\<lparr>Name = ''A.vm'', IsDir = False,
          source = Some \<lparr>srcLines = [''eq'', ''push constant 1'', ''lt''], srcErr = False\<rparr>\<rparr>,
         \<lparr>Name = ''B.vm'', IsDir = False,
          source = Some \<lparr>srcLines = [''eq''], srcErr = False\<rparr>\<rparr>]"
  let ?g7 = "\<lparr>fileName = [], compLabelCounter = 7, callCounter = 0, currentFunctionName = []\<rparr>"
  have c1: "isComparison ''lt''" by code_simp
  have c2: "\<not> isComparison ''push constant 1''" by code_simp
  have h: "hd (Fields (TrimSpace (beforeSlashes ''lt''))) = ''lt''" by code_simp
  have n7: "fmtInt 7 = ''7''" by code_simp
  have i: "int64 8 = 8" by (simp add: int64_def)
  have m: "mainCommands ?files = [''eq'', ''push constant 1'', ''lt'', ''eq'']" by code_simp
  have n: "int (length (filter isComparison [''eq'', ''push constant 1'', ''lt'', ''eq''])) \<le> 2 ^ 64"
    by code_simp
  have l: "comparisonLabels initGlobals [''eq'', ''push constant 1'', ''lt'', ''eq'']
       = [''EQ_TRUE_0'', ''EQ_END_0'', ''LT_TRUE_1'', ''LT_END_1'', ''EQ_TRUE_2'', ''EQ_END_2'']"
    by code_simp
  have b: "vmCommandToAsm ?g7 ''lt''
       = (Inr (''@SP\<newline>AM=M-1\<newline>D=M\<newline>A=A-1\<newline>D=M-D\<newline>'' @
               ''@LT_TRUE_7\<newline>D;JLT\<newline>'' @
               ''@SP\<newline>A=M-1\<newline>M=0\<newline>'' @
               ''@LT_END_7\<newline>0;JMP\<newline>'' @
               ''(LT_TRUE_7)\<newline>'' @
               ''@SP\<newline>A=M-1\<newline>M=-1\<newline>'' @
               ''(LT_END_7)\<newline>''),
          \<lparr>fileName = [], compLabelCounter = 8, callCounter = 0, currentFunctionName = []\<rparr>)"
  proof -
    from comparison_labels_unique [of "''lt''" ?g7 "[]" "[]"] c1
    obtain OP J asm where
      o: "(hd (Fields (TrimSpace (beforeSlashes ''lt''))), OP, J)
           \<in> set [(''eq'', ''EQ'', ''JEQ''), (''lt'', ''LT'', ''JLT''), (''gt'', ''GT'', ''JGT'')]"
      and a: "asm =
             ''@SP\<newline>AM=M-1\<newline>D=M\<newline>A=A-1\<newline>D=M-D\<newline>'' @
             ''@'' @ OP @ ''_TRUE_'' @ fmtInt (compLabelCounter ?g7) @ ''\<newline>D;'' @ J @ ''\<newline>'' @
             ''@SP\<newline>A=M-1\<newline>M=0\<newline>'' @
             ''@'' @ OP @ ''_END_'' @ fmtInt (compLabelCounter ?g7) @ ''\<newline>0;JMP\<newline>'' @
             ''('' @ OP @ ''_TRUE_'' @ fmtInt (compLabelCounter ?g7) @ '')\<newline>'' @
             ''@SP\<newline>A=M-1\<newline>M=-1\<newline>'' @
             ''('' @ OP @ ''_END_'' @ fmtInt (compLabelCounter ?g7) @ '')\<newline>''"
      and v: "vmCommandToAsm ?g7 ''lt''
             = (Inr asm, ?g7\<lparr>compLabelCounter := int64 (compLabelCounter ?g7 + 1)\<rparr>)"
      by blast
    from o have "OP = ''LT'' \<and> J = ''JLT''" unfolding h by simp
    with a v show ?thesis by (simp add: n7 i)
  qed
  have d: "distinct (comparisonLabels initGlobals [''eq'', ''push constant 1'', ''lt'', ''eq''])"
    using comparison_labels_unique [of "''eq''" initGlobals "[]" ?files] n
    unfolding m by blast
  have e2: "compLabelCounter (snd (vmCommandToAsm initGlobals ''push constant 1'')) = 0"
    using comparison_labels_unique [of "''push constant 1''" initGlobals "[]" "[]"] c2
    by (simp add: initGlobals_def)
  from c1 c2 b e2 m n l d show ?thesis by blast
qed





text \<open>
  Claim C6 (corrected).  As stated, every integer index is accepted on the segments
  \<open>pointer\<close> and \<open>temp\<close>; but \<open>push pointer 2\<close> is rejected.
\<close>

theorem pointer_index_2_rejected:
  "fst (vmCommandToAsm initGlobals ''push pointer 2'')
   = Inl (Errorf ''invalid index for push pointer command: 2'')"
  by code_simp

text \<open>
  Claim C6, as amended.  For a \<open>push\<close> or \<open>pop\<close> command on the segment \<open>temp\<close>, the
  index is accepted exactly when it parses as an integer, whatever its value.  On the
  segment \<open>pointer\<close> the index is accepted exactly when it is the text \<open>0\<close> or the text
  \<open>1\<close>; every other index is an error.
\<close>

theorem temp_pointer_index_check:
  assumes "Fields (TrimSpace (beforeSlashes cmd)) = [p0, segment, index]"
    and "p0 = ''push'' \<or> p0 = ''pop''"
  shows "(segment = ''temp'' \<longrightarrow>
            ((\<exists>asm. fst (vmCommandToAsm g cmd) = Inr asm) \<longleftrightarrow> (\<exists>k. Atoi index = Some k)))
       \<and> (segment = ''pointer'' \<longrightarrow>
            ((\<exists>asm. fst (vmCommandToAsm g cmd) = Inr asm) \<longleftrightarrow> (index = ''0'' \<or> index = ''1'')))"
  unfolding vmCommandToAsm_push_pop [OF assms]
  using assms(2)
  by (auto simp: translatePushCommand_def translatePopCommand_def split: option.splits)

theorem temp_pointer_index_check_witness:
  "Fields (TrimSpace (beforeSlashes ''push temp 9'')) = [''push'', ''temp'', ''9'']
   \<and> Fields (TrimSpace (beforeSlashes ''pop pointer 2'')) = [''pop'', ''pointer'', ''2'']
   \<and> (\<exists>asm. fst (vmCommandToAsm initGlobals ''push temp 9'') = Inr asm)
   \<and> \<not> (\<exists>asm. fst (vmCommandToAsm initGlobals ''pop pointer 2'') = Inr asm)"
proof -
  have f1: "Fields (TrimSpace (beforeSlashes ''push temp 9'')) = [''push'', ''temp'', ''9'']"
    by code_simp
  have f2: "Fields (TrimSpace (beforeSlashes ''pop pointer 2'')) = [''pop'', ''pointer'', ''2'']"
    by code_simp
  have a: "Atoi ''9'' = Some 9" by code_simp
  have "\<exists>asm. fst (vmCommandToAsm initGlobals ''push temp 9'') = Inr asm"
    using temp_pointer_index_check [OF f1, of initGlobals] a by simp
  moreover have "\<not> (\<exists>asm. fst (vmCommandToAsm initGlobals ''pop pointer 2'') = Inr asm)"
    using temp_pointer_index_check [OF f2, of initGlobals] by simp
  ultimately show ?thesis using f1 f2 by blast
qed

text \<open>
  Claim C7 (corrected).  As stated, a count operand that is not a non-negative integer
  is a syntax error; but \<open>function Foo -1\<close> is translated, to the entry label alone.
\<close>

theorem negative_count_accepted:
  "vmCommandToAsm initGlobals ''function Foo -1'' = (Inr ''(Foo)\<newline>'', initGlobals)"
  by code_simp

text \<open>
  Claim C7, as amended.  A \<open>function\<close> or \<open>call\<close> command is translated exactly when it
  has two operands and \<open>strconv.Atoi\<close> accepts the second one: an optional sign and
  decimal digits, of a value that fits into 64 bits.  The sign of the count is not
  looked at: the decimal text of every 64-bit integer, negative ones too, is accepted.
\<close>

theorem function_call_operand_check:
  assumes "Fields (TrimSpace (beforeSlashes cmd)) = p0 # operands"
    and "p0 = ''function'' \<or> p0 = ''call''"
  shows "((\<exists>asm. fst (vmCommandToAsm g cmd) = Inr asm)
          \<longleftrightarrow> (\<exists>name count k. operands = [name, count] \<and> Atoi count = Some k))
       \<and> (\<forall>name n. operands = [name, fmtInt n] \<and> - (2 ^ 63) \<le> n \<and> n < 2 ^ 63
            \<longrightarrow> (\<exists>asm. fst (vmCommandToAsm g cmd) = Inr asm))"
proof -
  have iff: "(\<exists>asm. fst (vmCommandToAsm g cmd) = Inr asm)
          \<longleftrightarrow> (\<exists>name count k. operands = [name, count] \<and> Atoi count = Some k)"
  proof (cases "length operands = 2")
    case True
    then obtain name count where ops: "operands = [name, count]"
      unfolding length_2_conv by blast
    show ?thesis
      unfolding vmCommandToAsm_function_call [OF assms] ops
      by (auto simp: translateCallCommand_def translateFunctionCommand_def Let_def
               split: option.splits)
  next
    case False
    then have "\<not> (\<exists>name count. operands = [name, count])" by auto
    with False show ?thesis
      unfolding vmCommandToAsm_function_call [OF assms] by auto
  qed
  then show ?thesis
    using Atoi_fmtInt by blast
qed

theorem function_call_operand_check_witness:
  "Fields (TrimSpace (beforeSlashes ''call Foo -2'')) = ''call'' # [''Foo'', fmtInt (- 2)]
   \<and> (\<exists>asm. fst (vmCommandToAsm initGlobals ''call Foo -2'') = Inr asm)
   \<and> Fields (TrimSpace (beforeSlashes ''function Foo x'')) = ''function'' # [''Foo'', ''x'']
   \<and> \<not> (\<exists>asm. fst (vmCommandToAsm initGlobals ''function Foo x'') = Inr asm)"
proof -
  have f1: "Fields (TrimSpace (beforeSlashes ''call Foo -2'')) = ''call'' # [''Foo'', fmtInt (- 2)]"
    by code_simp
  have f2: "Fields (TrimSpace (beforeSlashes ''function Foo x'')) = ''function'' # [''Foo'', ''x'']"
    by code_simp
  have a: "Atoi ''x'' = None" by code_simp
  have "\<exists>asm. fst (vmCommandToAsm initGlobals ''call Foo -2'') = Inr asm"
    using function_call_operand_check [OF f1, of initGlobals, THEN conjunct2, rule_format,
        of "''Foo''" "- 2"]
    by simp
  moreover have "\<not> (\<exists>asm. fst (vmCommandToAsm initGlobals ''function Foo x'') = Inr asm)"
    using function_call_operand_check [OF f2, of initGlobals] a by simp
  ultimately show ?thesis using f1 f2 by blast
qed

text \<open>
  Claim C8 (corrected).  As stated, the lines that a file has emitted before a command
  fails remain in the output.  They are written to a buffered writer, though, and the
  return on the error leaves \<open>translateVMFileToASM\<close> before its \<open>Flush\<close>: what the buffer
  holds at that moment never reaches the file.  Below, \<open>push constant 1\<close> is translated,
  \<open>bogus\<close> fails, and the output holds the bootstrap block and nothing else.
\<close>

theorem failing_unit_loses_buffered_lines:
  "fst (vmCommandToAsm initGlobals ''push constant 1'')
     = Inr ''@1\<newline>D=A\<newline>@SP\<newline>A=M\<newline>M=D\<newline>@SP\<newline>M=M+1\<newline>''
   \<and> fst (main [\<lparr>Name = ''A.vm'', IsDir = False,
                 source = Some \<lparr>srcLines = [''push constant 1'', ''bogus''], srcErr = False\<rparr>\<rparr>])
     = ''@256\<newline>D=A\<newline>@SP\<newline>M=D\<newline>''"
  by code_simp

text \<open>
  Claim C8, as amended.  When the command on line \<open>k\<close> of a source file fails, nothing is
  translated from that line on: the package-level variables are those that the lines
  before \<open>k\<close> leave.  The text that these lines are translated to is in the output
  file (\<open>written\<close>) but for its last bytes (\<open>lost\<close>), at most 4096 of them: those that
  the writer's buffer holds when the command fails.  The loop over the directory goes
  on with the files that follow, whether or not the translation of a file has failed.
\<close>

theorem failing_unit_keeps_a_prefix:
  "(translateVMFileToASM g asmFile (Some src) = (Some (Errorf msg), out, g') \<longrightarrow>
      (\<exists>k written lost. k < length (srcLines src)
         \<and> fst (vmCommandToAsm g' (TrimSpace (srcLines src ! k))) = Inl (Errorf msg)
         \<and> translateVMFileToASM g asmFile
               (Some \<lparr>srcLines = take k (srcLines src), srcErr = False\<rparr>)
             = (None, asmFile @ written @ lost, g')
         \<and> out = asmFile @ written \<and> length lost \<le> 4096))
   \<and> (\<not> IsDir entry \<and> HasSuffix (Name entry) ''.vm'' \<and> Name entry \<noteq> ''Sys.vm'' \<longrightarrow>
        translateEntries g asmFile (before @ entry # after) =
          (case translateEntries g asmFile before of
             (out1, g1) \<Rightarrow>
               (case translateVMFileToASM g1 out1 (source entry) of
                  (r, out2, g2) \<Rightarrow> translateEntries g2 out2 after)))"
proof (intro conjI impI)
  assume "translateVMFileToASM g asmFile (Some src) = (Some (Errorf msg), out, g')"
  then show "\<exists>k written lost. k < length (srcLines src)
         \<and> fst (vmCommandToAsm g' (TrimSpace (srcLines src ! k))) = Inl (Errorf msg)
         \<and> translateVMFileToASM g asmFile
               (Some \<lparr>srcLines = take k (srcLines src), srcErr = False\<rparr>)
             = (None, asmFile @ written @ lost, g')
         \<and> out = asmFile @ written \<and> length lost \<le> 4096"
    by (rule translateVMFileToASM_failure)
next
  assume "\<not> IsDir entry \<and> HasSuffix (Name entry) ''.vm'' \<and> Name entry \<noteq> ''Sys.vm''"
  then show "translateEntries g asmFile (before @ entry # after) =
          (case translateEntries g asmFile before of
             (out1, g1) \<Rightarrow>
               (case translateVMFileToASM g1 out1 (source entry) of
                  (r, out2, g2) \<Rightarrow> translateEntries g2 out2 after))"
    by (simp add: translateEntries_append split: prod.splits)
qed

theorem failing_unit_keeps_a_prefix_witness:
  "translateVMFileToASM initGlobals bootstrap
       (Some \<lparr>srcLines = [''eq'', ''bogus'', ''add''], srcErr = False\<rparr>)
     = (Some (Errorf ''unsupported command: bogus''), bootstrap,
        \<lparr>fileName = [], compLabelCounter = 1, callCounter = 0, currentFunctionName = []\<rparr>)
   \<and> (\<exists>k written lost. k < length [''eq'', ''bogus'', ''add'']
         \<and> fst (vmCommandToAsm
                  \<lparr>fileName = [], compLabelCounter = 1, callCounter = 0, currentFunctionName = []\<rparr>
                  (TrimSpace ([''eq'', ''bogus'', ''add''] ! k)))
             = Inl (Errorf ''unsupported command: bogus'')
         \<and> translateVMFileToASM initGlobals bootstrap
               (Some \<lparr>srcLines = take k [''eq'', ''bogus'', ''add''], srcErr = False\<rparr>)
             = (None, bootstrap @ written @ lost,
                \<lparr>fileName = [], compLabelCounter = 1, callCounter = 0, currentFunctionName = []\<rparr>)
         \<and> bootstrap = bootstrap @ written \<and> length lost \<le> 4096)
   \<and> fst (translateEntries initGlobals bootstrap
        ([] @ \<lparr>Name = ''A.vm'', IsDir = False,
                source = Some \<lparr>srcLines = [''eq'', ''bogus'', ''add''], srcErr = False\<rparr>\<rparr>
            # [\<lparr>Name = ''B.vm'', IsDir = False,
                source = Some \<lparr>srcLines = [''lt''], srcErr = False\<rparr>\<rparr>]))
     = bootstrap @ translateComparisonCommand ''lt'' 1"
proof -
  let ?g1 = "\<lparr>fileName = [], compLabelCounter = 1, callCounter = 0, currentFunctionName = []\<rparr>"
  let ?src = "\<lparr>srcLines = [''eq'', ''bogus'', ''add''], srcErr = False\<rparr>"
  let ?a = "\<lparr>Name = ''A.vm'', IsDir = False, source = Some ?src\<rparr>"
  let ?b = "\<lparr>Name = ''B.vm'', IsDir = False,
                source = Some \<lparr>srcLines = [''lt''], srcErr = False\<rparr>\<rparr>"
  have h: "translateVMFileToASM initGlobals bootstrap (Some ?src)
     = (Some (Errorf ''unsupported command: bogus''), bootstrap, ?g1)"
    by code_simp
  have e: "\<not> IsDir ?a \<and> HasSuffix (Name ?a) ''.vm'' \<and> Name ?a \<noteq> ''Sys.vm''"
    by code_simp
  have b: "fst (translateEntries ?g1 bootstrap [?b]) = bootstrap @ translateComparisonCommand ''lt'' 1"
    by code_simp
  note inst = failing_unit_keeps_a_prefix [of initGlobals bootstrap ?src
      "''unsupported command: bogus''" bootstrap ?g1 ?a "[]" "[?b]"]
  from inst h have p1: "\<exists>k written lost. k < length [''eq'', ''bogus'', ''add'']
         \<and> fst (vmCommandToAsm ?g1 (TrimSpace ([''eq'', ''bogus'', ''add''] ! k)))
             = Inl (Errorf ''unsupported command: bogus'')
         \<and> translateVMFileToASM initGlobals bootstrap
               (Some \<lparr>srcLines = take k [''eq'', ''bogus'', ''add''], srcErr = False\<rparr>)
             = (None, bootstrap @ written @ lost, ?g1)
         \<and> bootstrap = bootstrap @ written \<and> length lost \<le> 4096"
    by simp
  from inst e have "translateEntries initGlobals bootstrap ([] @ ?a # [?b]) =
          (case translateEntries initGlobals bootstrap [] of
             (out1, g1) \<Rightarrow>
               (case translateVMFileToASM g1 out1 (source ?a) of
                  (r, out2, g2) \<Rightarrow> translateEntries g2 out2 [?b]))"
    by blast
  then have p2: "fst (translateEntries initGlobals bootstrap ([] @ ?a # [?b]))
      = bootstrap @ translateComparisonCommand ''lt'' 1"
    using h b by simp
  from h p1 p2 show ?thesis by blast
qed

text \<open>
  Claim C9.  The output file starts with the bootstrap block, which sets \<open>SP\<close> to 256.
  When the directory holds a file \<open>Sys.vm\<close>, wherever it stands in the listing, what the
  translation of that file writes comes next, and what the other files give comes after
  it; the other files are translated with the package-level variables that \<open>Sys.vm\<close> left.
\<close>

theorem bootstrap_then_Sys:
  "(\<exists>rest. fst (main files) = ''@256\<newline>D=A\<newline>@SP\<newline>M=D\<newline>'' @ rest)
   \<and> (distinct (map Name files) \<and> entry \<in> set files \<and> \<not> IsDir entry \<and> Name entry = ''Sys.vm''
        \<longrightarrow> fst (main files) =
              ''@256\<newline>D=A\<newline>@SP\<newline>M=D\<newline>''
              @ fst (snd (translateVMFileToASM initGlobals [] (source entry)))
              @ fst (translateEntries (snd (snd (translateVMFileToASM initGlobals [] (source entry))))
                       [] (filter (\<lambda>e. e \<noteq> entry) files)))"
proof (intro conjI impI)
  show "\<exists>rest. fst (main files) = ''@256\<newline>D=A\<newline>@SP\<newline>M=D\<newline>'' @ rest"
  proof (cases "checkForSysVM files")
    case True
    obtain r out g1 where
      t: "translateVMFileToASM initGlobals bootstrap (openFile files ''Sys.vm'') = (r, out, g1)"
      by (cases "translateVMFileToASM initGlobals bootstrap (openFile files ''Sys.vm'')")
    then have "out = bootstrap @ fst (snd (translateVMFileToASM initGlobals [] (openFile files ''Sys.vm'')))"
      using translateVMFileToASM_from_empty [of initGlobals bootstrap "openFile files ''Sys.vm''"]
      by simp
    then have "fst (main files) = bootstrap
        @ fst (snd (translateVMFileToASM initGlobals [] (openFile files ''Sys.vm'')))
        @ fst (translateEntries g1 [] files)"
      using True t translateEntries_from_empty [of g1 out files]
      by (simp add: main_def)
    then show ?thesis by (simp add: bootstrap_def)
  next
    case False
    then have "fst (main files) = bootstrap @ fst (translateEntries initGlobals [] files)"
      using translateEntries_from_empty [of initGlobals bootstrap files]
      by (simp add: main_def)
    then show ?thesis by (simp add: bootstrap_def)
  qed
next
  assume a: "distinct (map Name files) \<and> entry \<in> set files \<and> \<not> IsDir entry \<and> Name entry = ''Sys.vm''"
  then have c: "checkForSysVM files" unfolding checkForSysVM_iff by blast
  from a have "find (\<lambda>e. Name e = Name entry) files = Some entry"
    using find_by_name by blast
  with a have o: "openFile files ''Sys.vm'' = source entry" by (simp add: openFile_def)
  obtain r out g1 where
    t: "translateVMFileToASM initGlobals bootstrap (source entry) = (r, out, g1)"
    by (cases "translateVMFileToASM initGlobals bootstrap (source entry)")
  then have out: "out = bootstrap @ fst (snd (translateVMFileToASM initGlobals [] (source entry)))"
    and g1: "g1 = snd (snd (translateVMFileToASM initGlobals [] (source entry)))"
    using translateVMFileToASM_from_empty [of initGlobals bootstrap "source entry"]
    by simp_all
  have "fst (main files) = out @ fst (translateEntries g1 [] files)"
    using c o t translateEntries_from_empty [of g1 out files]
    by (simp add: main_def)
  also have "translateEntries g1 [] files = translateEntries g1 [] (filter (\<lambda>e. e \<noteq> entry) files)"
    using a translateEntries_skip [of entry g1 "[]" files] by simp
  finally show "fst (main files) =
              ''@256\<newline>D=A\<newline>@SP\<newline>M=D\<newline>''
              @ fst (snd (translateVMFileToASM initGlobals [] (source entry)))
              @ fst (translateEntries (snd (snd (translateVMFileToASM initGlobals [] (source entry))))
                       [] (filter (\<lambda>e. e \<noteq> entry) files))"
    unfolding out g1 by (simp add: bootstrap_def)
qed

theorem bootstrap_then_Sys_witness:
  "distinct (map Name
      [\<lparr>Name = ''A.vm'', IsDir = False,
        source = Some \<lparr>srcLines = [''push constant 1'', ''eq''], srcErr = False\<rparr>\<rparr>,
       \<lparr>Name = ''Sys.vm'', IsDir = False,
        source = Some \<lparr>srcLines = [''lt''], srcErr = False\<rparr>\<rparr>])
   \<and> fst (main
      [\<lparr>Name = ''A.vm'', IsDir = False,
        source = Some \<lparr>srcLines = [''push constant 1'', ''eq''], srcErr = False\<rparr>\<rparr>,
       \<lparr>Name = ''Sys.vm'', IsDir = False,
        source = Some \<lparr>srcLines = [''lt''], srcErr = False\<rparr>\<rparr>])
     = ''@256\<newline>D=A\<newline>@SP\<newline>M=D\<newline>''
       @ translateComparisonCommand ''lt'' 0
       @ ''@1\<newline>D=A\<newline>@SP\<newline>A=M\<newline>M=D\<newline>@SP\<newline>M=M+1\<newline>''
       @ translateComparisonCommand ''eq'' 1"
proof -
  let ?a = "\<lparr>Name = ''A.vm'', IsDir = False,
        source = Some \<lparr>srcLines = [''push constant 1'', ''eq''], srcErr = False\<rparr>\<rparr>"
  let ?s = "\<lparr>Name = ''Sys.vm'', IsDir = False,
        source = Some \<lparr>srcLines = [''lt''], srcErr = False\<rparr>\<rparr>"
  have d: "distinct (map Name [?a, ?s])" by simp
  have x: "translateVMFileToASM initGlobals [] (source ?s)
     = (None, translateComparisonCommand ''lt'' 0,
        \<lparr>fileName = [], compLabelCounter = 1, callCounter = 0, currentFunctionName = []\<rparr>)"
    by code_simp
  have f: "filter (\<lambda>e. e \<noteq> ?s) [?a, ?s] = [?a]" by simp
  have y: "fst (translateEntries
        \<lparr>fileName = [], compLabelCounter = 1, callCounter = 0, currentFunctionName = []\<rparr> [] [?a])
      = ''@1\<newline>D=A\<newline>@SP\<newline>A=M\<newline>M=D\<newline>@SP\<newline>M=M+1\<newline>''
       @ translateComparisonCommand ''eq'' 1"
    by code_simp
  have "fst (main [?a, ?s]) =
      ''@256\<newline>D=A\<newline>@SP\<newline>M=D\<newline>''
      @ fst (snd (translateVMFileToASM initGlobals [] (source ?s)))
      @ fst (translateEntries (snd (snd (translateVMFileToASM initGlobals [] (source ?s))))
               [] (filter (\<lambda>e. e \<noteq> ?s) [?a, ?s]))"
    using bootstrap_then_Sys [of "[?a, ?s]" ?s] by simp
  then have "fst (main [?a, ?s])
     = ''@256\<newline>D=A\<newline>@SP\<newline>M=D\<newline>''
       @ translateComparisonCommand ''lt'' 0
       @ ''@1\<newline>D=A\<newline>@SP\<newline>A=M\<newline>M=D\<newline>@SP\<newline>M=M+1\<newline>''
       @ translateComparisonCommand ''eq'' 1"
    unfolding x f using y by simp
  with d show ?thesis by blast
qed

text \<open>
  Claim C10.  When \<open>vmCommandToAsm\<close> returns an error, the package-level variables are
  what they were before the call: neither counter has moved, so the labels of the
  commands that follow are numbered as if the failing command had not been there.
\<close>

theorem failing_command_keeps_globals:
  "fst (vmCommandToAsm g cmd) = Inl e \<Longrightarrow> snd (vmCommandToAsm g cmd) = g"
  using vmCommandToAsm_error_globals by blast

theorem failing_command_keeps_globals_witness:
  "fst (vmCommandToAsm \<lparr>fileName = [], compLabelCounter = 3, callCounter = 4,
                         currentFunctionName = []\<rparr> ''call Foo'')
     = Inl (Errorf ''invalid call command: call Foo'')
   \<and> snd (vmCommandToAsm \<lparr>fileName = [], compLabelCounter = 3, callCounter = 4,
                           currentFunctionName = []\<rparr> ''call Foo'')
     = \<lparr>fileName = [], compLabelCounter = 3, callCounter = 4, currentFunctionName = []\<rparr>"
proof -
  have h: "fst (vmCommandToAsm \<lparr>fileName = [], compLabelCounter = 3, callCounter = 4,
                         currentFunctionName = []\<rparr> ''call Foo'')
     = Inl (Errorf ''invalid call command: call Foo'')"
    by code_simp
  from failing_command_keeps_globals [OF h] h show ?thesis by simp
qed

end
